theory Spec2Isabelle
  imports Complex_Main
begin

section \<open>Arrays\<close>

text \<open>
  The calibration measures of \<^verbatim>\<open>probnumeval/multivariate/_calibration_measures.py\<close>
  work on numpy arrays of floats. A float is carried here as an exact real number:
  rounding and overflow are left out. What is kept of IEEE arithmetic is the
  difference between an array of finite numbers and an array that holds \<^verbatim>\<open>nan\<close>,
  \<^verbatim>\<open>inf\<close> or \<^verbatim>\<open>-inf\<close> somewhere: \<open>Fin a\<close> is the first, with its content, and
  \<open>NonFin\<close> the second, with no content. In every operation the source applies, a
  non-finite operand gives a non-finite result.

  A residual of dimension \<open>d\<close> is a list of \<open>d\<close> reals, a covariance matrix of shape
  \<open>(d, d)\<close> the list of its rows. The arrays are taken in the shapes the package
  documents, \<open>(N, d)\<close> for the means and the reference and \<open>(N, d, d)\<close> for the
  covariances; numpy's shape errors and broadcasting are not part of the model.
\<close>

type_synonym vec = "real list"
type_synonym mat = "real list list"

datatype 'a np = Fin 'a | NonFin

fun lift1 :: "('a \<Rightarrow> 'b) \<Rightarrow> 'a np \<Rightarrow> 'b np" where
  "lift1 f (Fin a) = Fin (f a)"
| "lift1 f NonFin = NonFin"

fun lift2 :: "('a \<Rightarrow> 'b \<Rightarrow> 'c) \<Rightarrow> 'a np \<Rightarrow> 'b np \<Rightarrow> 'c np" where
  "lift2 f (Fin a) (Fin b) = Fin (f a b)"
| "lift2 f _ _ = NonFin"

text \<open>Elementwise \<^verbatim>\<open>a - b\<close> of two arrays of shape \<open>(N, d)\<close>.\<close>

definition arr_sub :: "vec list \<Rightarrow> vec list \<Rightarrow> vec list" where
  "arr_sub a b = map2 (map2 (-)) a b"

text \<open>\<^verbatim>\<open>a @ b\<close> of two vectors.\<close>

definition dot :: "vec \<Rightarrow> vec \<Rightarrow> real" where
  "dot a b = sum_list (map2 (*) a b)"

definition ncols :: "mat \<Rightarrow> nat" where
  "ncols A = (case A of [] \<Rightarrow> 0 | r # _ \<Rightarrow> length r)"

definition col :: "mat \<Rightarrow> nat \<Rightarrow> vec" where
  "col A j = map (\<lambda>r. r ! j) A"

text \<open>\<^verbatim>\<open>A.T\<close>\<close>

definition mat_T :: "mat \<Rightarrow> mat" where
  "mat_T A = map (col A) [0..<ncols A]"

text \<open>\<^verbatim>\<open>A + B\<close> and \<^verbatim>\<open>c * A\<close>, elementwise.\<close>

definition mat_add :: "mat \<Rightarrow> mat \<Rightarrow> mat" where
  "mat_add A B = map2 (map2 (+)) A B"

definition mat_scal :: "real \<Rightarrow> mat \<Rightarrow> mat" where
  "mat_scal c A = map (map ((*) c)) A"

text \<open>\<^verbatim>\<open>np.eye(n)\<close>\<close>

definition eye :: "nat \<Rightarrow> mat" where
  "eye n = map (\<lambda>i. map (\<lambda>j. if i = j then 1 else 0) [0..<n]) [0..<n]"

text \<open>\<^verbatim>\<open>v @ A\<close>, \<^verbatim>\<open>A @ x\<close> and \<^verbatim>\<open>A @ B\<close>.\<close>

definition vec_mat :: "vec \<Rightarrow> mat \<Rightarrow> vec" where
  "vec_mat v A = map (\<lambda>j. dot v (col A j)) [0..<ncols A]"

definition mat_vec :: "mat \<Rightarrow> vec \<Rightarrow> vec" where
  "mat_vec A x = map (\<lambda>r. dot r x) A"

definition mat_mul :: "mat \<Rightarrow> mat \<Rightarrow> mat" where
  "mat_mul A B = map (\<lambda>r. vec_mat r B) A"

text \<open>
  \<^verbatim>\<open>np.mean\<close> of a one-dimensional array: the sum divided by the number of entries.
  The mean of an empty array is \<^verbatim>\<open>nan\<close> (numpy warns and returns it).
\<close>

definition np_sum :: "real np list \<Rightarrow> real np" where
  "np_sum xs = foldr (lift2 (+)) xs (Fin 0)"

definition np_mean :: "real np list \<Rightarrow> real np" where
  "np_mean xs = (if xs = [] then NonFin else lift1 (\<lambda>s. s / real (length xs)) (np_sum xs))"

text \<open>
  \<^verbatim>\<open>np.log10\<close>: \<^verbatim>\<open>-inf\<close> at zero and \<^verbatim>\<open>nan\<close> at a negative number, each with a
  warning and no exception.
\<close>

fun np_log10 :: "real np \<Rightarrow> real np" where
  "np_log10 (Fin x) = (if 0 < x then Fin (log 10 x) else NonFin)"
| "np_log10 NonFin = NonFin"

text \<open>
  \<^verbatim>\<open>np.cov(X)\<close> with its defaults (\<^verbatim>\<open>rowvar=True\<close>, \<^verbatim>\<open>ddof=1\<close>): each row of \<open>X\<close> is a
  variable, each column an observation. numpy returns an empty array when there is
  no variable; it subtracts from each row its average, multiplies the centred array
  with its transpose and scales by \<open>1 / fact\<close>, where \<open>fact\<close> is the number of
  observations less one. With \<open>fact \<le> 0\<close> it warns, sets \<open>fact\<close> to \<open>0.0\<close> and the
  scaling by \<open>1 / 0.0\<close> leaves no finite entry. The final \<^verbatim>\<open>squeeze\<close> turns a
  \<open>(1, 1)\<close> result into a scalar, which \<^verbatim>\<open>np.tile\<close> with \<^verbatim>\<open>reps=(N, 1, 1)\<close> turns
  back into \<open>(1, 1)\<close> matrices, so the model keeps the \<open>(1, 1)\<close> shape.
\<close>

definition np_cov :: "mat \<Rightarrow> mat np" where
  "np_cov X =
     (if X = [] then Fin []
      else
        let n = ncols X;
            fact = int n - 1
        in if fact \<le> 0 then NonFin
           else
             let Xc = map (\<lambda>row. map (\<lambda>v. v - sum_list row / real n) row) X;
                 c = mat_mul Xc (mat_T Xc)
             in Fin (mat_scal (1 / real_of_int fact) c))"

section \<open>Configuration, linear algebra routines, errors\<close>

text \<open>
  \<^verbatim>\<open>config.COVARIANCE_INVERSION\<close> is a dictionary of the package, read at every
  computation of a discrepancy; its module is not among the sources, the three keys
  the code reads are. It is passed to the functions as a value.
\<close>

record covariance_inversion =
  symmetrize :: bool
  damping :: real
  strategy :: string

text \<open>
  The routines of numpy and scipy that invert or solve are not code of the package.
  They are a parameter of the model: each takes its arrays and either raises (the
  name of the exception, on the left) or returns an array.
  \<^verbatim>\<open>scipy.linalg.cho_factor(cov, lower=True)\<close> returns the pair \<^verbatim>\<open>(c, lower)\<close> that
  \<^verbatim>\<open>cho_solve\<close> takes.
\<close>

record linalg =
  np_linalg_inv :: "mat np \<Rightarrow> string + mat np"
  np_linalg_pinv :: "mat np \<Rightarrow> string + mat np"
  np_linalg_solve :: "mat np \<Rightarrow> vec \<Rightarrow> string + vec np"
  cho_factor :: "mat np \<Rightarrow> bool \<Rightarrow> string + (mat np \<times> bool)"
  cho_solve :: "mat np \<times> bool \<Rightarrow> vec \<Rightarrow> string + vec np"

text \<open>
  An exception is either the \<^verbatim>\<open>ValueError("Covariance inversion parameters are not
  known.")\<close> of the package itself or one that a library routine raised.
\<close>

datatype error = UnknownInversionParameters | Library string

definition raised :: "string + 'a \<Rightarrow> ('a \<Rightarrow> error + 'b) \<Rightarrow> error + 'b" where
  "raised r k = (case r of Inl e \<Rightarrow> Inl (Library e) | Inr a \<Rightarrow> k a)"

section \<open>The normalised discrepancy\<close>

text \<open>
  \<^verbatim>\<open>_compute_normalized_discrepancy(mean, cov)\<close> (an Isabelle name cannot start
  with an underscore). The parameter \<^verbatim>\<open>cov\<close> names the caller's array.
  \<^verbatim>\<open>cov = 0.5 * (cov + cov.T)\<close> binds the local name to a new array.
  \<^verbatim>\<open>cov += damping * np.eye(len(cov))\<close> adds in place, into the array the local
  name refers to at that point: the new array after a symmetrisation, the caller's
  array otherwise. The function is therefore modelled with the caller's array as
  state: it returns the content of that array after the call, and the outcome of the
  call, a raised exception or the returned number.
\<close>

definition compute_normalized_discrepancy ::
    "linalg \<Rightarrow> covariance_inversion \<Rightarrow> vec \<Rightarrow> mat np \<Rightarrow> mat np \<times> (error + real np)" where
  "compute_normalized_discrepancy la cfg m C =
     (let cov1 = (if symmetrize cfg then lift1 (mat_scal 0.5) (lift2 mat_add C (lift1 mat_T C)) else C);
          cov2 = (if damping cfg > 0.0
                  then lift2 mat_add cov1 (lift1 (\<lambda>A. mat_scal (damping cfg) (eye (length A))) cov1)
                  else cov1);
          caller = (if symmetrize cfg then C else cov2)
      in (caller,
          if strategy cfg = ''inv'' then
            raised (np_linalg_inv la cov2) (\<lambda>M. Inr (lift1 (\<lambda>v. dot v m) (lift1 (vec_mat m) M)))
          else if strategy cfg = ''pinv'' then
            raised (np_linalg_pinv la cov2) (\<lambda>M. Inr (lift1 (\<lambda>v. dot v m) (lift1 (vec_mat m) M)))
          else if strategy cfg = ''solve'' then
            raised (np_linalg_solve la cov2 m) (\<lambda>x. Inr (lift1 (dot m) x))
          else if strategy cfg = ''cholesky'' then
            raised (cho_factor la cov2 True) (\<lambda>(L, lower).
              raised (cho_solve la (L, lower) m) (\<lambda>x. Inr (lift1 (dot m) x)))
          else Inl UnknownInversionParameters))"

text \<open>
  \<^verbatim>\<open>_compute_normalized_discrepancies(centered_mean, cov_matrices)\<close>: the list
  comprehension over \<^verbatim>\<open>zip(centered_mean, cov_matrices)\<close> calls the function above
  point after point, on the rows of the two arrays; an exception ends it. The state
  is the array \<^verbatim>\<open>cov_matrices\<close>, whose rows the calls may write.
\<close>

fun compute_normalized_discrepancies ::
    "linalg \<Rightarrow> covariance_inversion \<Rightarrow> vec list \<Rightarrow> mat np list
      \<Rightarrow> mat np list \<times> (error + real np list)" where
  "compute_normalized_discrepancies la cfg (m # ms) (C # Cs) =
     (case compute_normalized_discrepancy la cfg m C of
        (C', Inl e) \<Rightarrow> (C' # Cs, Inl e)
      | (C', Inr v) \<Rightarrow>
          (case compute_normalized_discrepancies la cfg ms Cs of
             (Cs', Inl e) \<Rightarrow> (C' # Cs', Inl e)
           | (Cs', Inr vs) \<Rightarrow> (C' # Cs', Inr (v # vs))))"
| "compute_normalized_discrepancies la cfg ms Cs = (Cs, Inr [])"

section \<open>The two statistics\<close>

text \<open>
  An approximate solution gives the array of its means and the array of its
  covariances. \<open>anees\<close> and \<open>nci\<close> return the content of the covariance array after
  the call, and the outcome. In \<open>nci\<close>, \<^verbatim>\<open>np.tile\<close> with
  \<^verbatim>\<open>reps=(len(centered_mean), 1, 1)\<close> makes one copy of the sample covariance for
  each residual, each copy an array of its own; with no residual there is no copy,
  whatever \<^verbatim>\<open>np.cov\<close> returned.
\<close>

record approximate_solution =
  mean :: "vec list"
  cov :: "mat np list"

definition anees ::
    "linalg \<Rightarrow> covariance_inversion \<Rightarrow> approximate_solution \<Rightarrow> vec list
      \<Rightarrow> mat np list \<times> (error + real np)" where
  "anees la cfg approximate_solution reference_solution =
     (let cov_matrices = cov approximate_solution;
          centered_mean = arr_sub (mean approximate_solution) reference_solution
      in case compute_normalized_discrepancies la cfg centered_mean cov_matrices of
           (cov_matrices', Inl e) \<Rightarrow> (cov_matrices', Inl e)
         | (cov_matrices', Inr normalized_discrepancies) \<Rightarrow>
             (cov_matrices', Inr (np_mean normalized_discrepancies)))"

definition nci ::
    "linalg \<Rightarrow> covariance_inversion \<Rightarrow> approximate_solution \<Rightarrow> vec list
      \<Rightarrow> mat np list \<times> (error + real np)" where
  "nci la cfg approximate_solution reference_solution =
     (let cov_matrices = cov approximate_solution;
          centered_mean = arr_sub (mean approximate_solution) reference_solution
      in case compute_normalized_discrepancies la cfg centered_mean cov_matrices of
           (cov_matrices', Inl e) \<Rightarrow> (cov_matrices', Inl e)
         | (cov_matrices', Inr normalized_discrepancies) \<Rightarrow>
             (let sample_covariance_matrix =
                    replicate (length centered_mean) (np_cov (mat_T centered_mean))
              in case compute_normalized_discrepancies la cfg centered_mean sample_covariance_matrix of
                   (_, Inl e) \<Rightarrow> (cov_matrices', Inl e)
                 | (_, Inr reference_discrepancies) \<Rightarrow>
                     (cov_matrices',
                      Inr (lift1 ((*) 10)
                             (lift2 (-) (np_mean (map np_log10 normalized_discrepancies))
                                        (np_mean (map np_log10 reference_discrepancies)))))))"

section \<open>Contracts of the library routines\<close>

text \<open>
  What the documentation of numpy and scipy promises of an answer, as predicates
  that can be evaluated. A matrix of shape \<open>(d, d)\<close>:
\<close>

definition square :: "nat \<Rightarrow> mat \<Rightarrow> bool" where
  "square d A = (length A = d \<and> list_all (\<lambda>r. length r = d) A)"

text \<open>\<open>M\<close> is the inverse of \<open>A\<close>, as \<^verbatim>\<open>np.linalg.inv\<close> returns it.\<close>

definition inverse_of :: "mat \<Rightarrow> mat \<Rightarrow> bool" where
  "inverse_of A M =
     (square (length A) M \<and> mat_mul M A = eye (length A) \<and> mat_mul A M = eye (length A))"

text \<open>
  \<open>P\<close> is the Moore-Penrose pseudo-inverse of \<open>A\<close>, as \<^verbatim>\<open>np.linalg.pinv\<close>
  returns it: the four Penrose equations.
\<close>

definition pseudo_inverse_of :: "mat \<Rightarrow> mat \<Rightarrow> bool" where
  "pseudo_inverse_of A P =
     (square (length A) P \<and>
      mat_mul (mat_mul A P) A = A \<and>
      mat_mul (mat_mul P A) P = P \<and>
      mat_T (mat_mul A P) = mat_mul A P \<and>
      mat_T (mat_mul P A) = mat_mul P A)"

text \<open>\<open>x\<close> solves \<open>A x = b\<close>, as \<^verbatim>\<open>np.linalg.solve\<close> and \<^verbatim>\<open>cho_solve\<close> return it.\<close>

definition solution_of :: "mat \<Rightarrow> vec \<Rightarrow> vec \<Rightarrow> bool" where
  "solution_of A b x = (length x = length A \<and> mat_vec A x = b)"

text \<open>The routines of a backend answer as promised, at one matrix and right-hand side.\<close>

definition inv_ok :: "linalg \<Rightarrow> mat \<Rightarrow> bool" where
  "inv_ok la A =
     (case np_linalg_inv la (Fin A) of Inr (Fin M) \<Rightarrow> inverse_of A M | _ \<Rightarrow> False)"

definition pinv_ok :: "linalg \<Rightarrow> mat \<Rightarrow> bool" where
  "pinv_ok la A =
     (case np_linalg_pinv la (Fin A) of Inr (Fin P) \<Rightarrow> pseudo_inverse_of A P | _ \<Rightarrow> False)"

definition solve_ok :: "linalg \<Rightarrow> mat \<Rightarrow> vec \<Rightarrow> bool" where
  "solve_ok la A b =
     (case np_linalg_solve la (Fin A) b of Inr (Fin x) \<Rightarrow> solution_of A b x | _ \<Rightarrow> False)"

definition cholesky_ok :: "linalg \<Rightarrow> mat \<Rightarrow> vec \<Rightarrow> bool" where
  "cholesky_ok la A b =
     (case cho_factor la (Fin A) True of
        Inr F \<Rightarrow> (case cho_solve la F b of Inr (Fin x) \<Rightarrow> solution_of A b x | _ \<Rightarrow> False)
      | Inl _ \<Rightarrow> False)"

text \<open>The routine that the configured strategy calls answers as promised.\<close>

definition strategy_ok :: "linalg \<Rightarrow> covariance_inversion \<Rightarrow> mat \<Rightarrow> vec \<Rightarrow> bool" where
  "strategy_ok la cfg A b =
     (if strategy cfg = ''inv'' then inv_ok la A
      else if strategy cfg = ''pinv'' then pinv_ok la A
      else if strategy cfg = ''solve'' then solve_ok la A b
      else if strategy cfg = ''cholesky'' then cholesky_ok la A b
      else False)"

section \<open>A backend for diagonal matrices\<close>

text \<open>
  The five routines in exact arithmetic, on the finite diagonal matrices, where each
  has a closed form: the inverse and the solution divide by the diagonal and exist
  when no diagonal entry is zero, the pseudo-inverse inverts the non-zero diagonal
  entries and keeps the zeros, the Cholesky factor holds the square roots of a
  positive diagonal. No other matrix is in the domain of this backend. It serves to
  instantiate the theorems below, whose hypotheses constrain a backend only at the
  matrices they mention.
\<close>

definition diag_of :: "mat \<Rightarrow> vec" where
  "diag_of A = map (\<lambda>i. A ! i ! i) [0..<length A]"

definition of_diag :: "vec \<Rightarrow> mat" where
  "of_diag ds = map (\<lambda>i. map (\<lambda>j. if i = j then ds ! i else 0) [0..<length ds]) [0..<length ds]"

definition is_diag :: "mat \<Rightarrow> bool" where
  "is_diag A = (A = of_diag (diag_of A))"

fun diag_inv :: "mat np \<Rightarrow> string + mat np" where
  "diag_inv (Fin A) =
     (if \<not> is_diag A then Inl ''unsupported''
      else if 0 \<in> set (diag_of A) then Inl ''LinAlgError''
      else Inr (Fin (of_diag (map inverse (diag_of A)))))"
| "diag_inv NonFin = Inl ''unsupported''"

fun diag_pinv :: "mat np \<Rightarrow> string + mat np" where
  "diag_pinv (Fin A) =
     (if \<not> is_diag A then Inl ''unsupported''
      else Inr (Fin (of_diag (map (\<lambda>a. if a = 0 then 0 else inverse a) (diag_of A)))))"
| "diag_pinv NonFin = Inl ''unsupported''"

fun diag_solve :: "mat np \<Rightarrow> vec \<Rightarrow> string + vec np" where
  "diag_solve (Fin A) b =
     (if \<not> is_diag A then Inl ''unsupported''
      else if 0 \<in> set (diag_of A) then Inl ''LinAlgError''
      else Inr (Fin (map2 (\<lambda>v a. v / a) b (diag_of A))))"
| "diag_solve NonFin b = Inl ''unsupported''"

fun diag_cho_factor :: "mat np \<Rightarrow> bool \<Rightarrow> string + (mat np \<times> bool)" where
  "diag_cho_factor (Fin A) lower =
     (if \<not> is_diag A then Inl ''unsupported''
      else if list_ex (\<lambda>a. a \<le> 0) (diag_of A) then Inl ''LinAlgError''
      else Inr (Fin (of_diag (map sqrt (diag_of A))), lower))"
| "diag_cho_factor NonFin lower = Inl ''unsupported''"

fun diag_cho_solve :: "mat np \<times> bool \<Rightarrow> vec \<Rightarrow> string + vec np" where
  "diag_cho_solve (Fin L, lower) b =
     (if \<not> is_diag L then Inl ''unsupported''
      else Inr (Fin (map2 (\<lambda>v l. v / (l * l)) b (diag_of L))))"
| "diag_cho_solve (NonFin, lower) b = Inl ''unsupported''"

definition diagonal_linalg :: linalg where
  "diagonal_linalg =
     \<lparr>np_linalg_inv = diag_inv, np_linalg_pinv = diag_pinv, np_linalg_solve = diag_solve,
      cho_factor = diag_cho_factor, cho_solve = diag_cho_solve\<rparr>"

section \<open>The steps of the discrepancy computation, as specified\<close>

text \<open>
  The specification describes the computation as three steps. They are written
  here from its words, entry by entry, to be compared with the function above.
  Step 1 replaces \<open>C\<close> by its symmetric part \<open>0.5 * (C + C\<^sup>T)\<close>.
\<close>

definition symmetric_part :: "mat \<Rightarrow> mat" where
  "symmetric_part C =
     map (\<lambda>i. map (\<lambda>j. 0.5 * (C ! i ! j + C ! j ! i)) [0..<length C]) [0..<length C]"

text \<open>Step 2 adds \<open>damping * I\<^sub>d\<close>: the damping on the diagonal, nothing elsewhere.\<close>

definition damped :: "real \<Rightarrow> mat \<Rightarrow> mat" where
  "damped c C =
     map (\<lambda>i. map (\<lambda>j. C ! i ! j + (if i = j then c else 0)) [0..<length C]) [0..<length C]"

text \<open>
  The regularised covariance: step 1 when symmetrisation is enabled, then step 2
  when the damping is strictly positive.
\<close>

definition regularized :: "covariance_inversion \<Rightarrow> mat \<Rightarrow> mat" where
  "regularized cfg C =
     (let C1 = (if symmetrize cfg then symmetric_part C else C)
      in if 0 < damping cfg then damped (damping cfg) C1 else C1)"

text \<open>
  Step 3 computes \<open>r\<^sup>T C\<^sup>-\<^sup>1 r\<close> by the one strategy the configuration names: the
  explicit inverse and then the bilinear form, the pseudo-inverse and then the
  bilinear form, the solution \<open>x\<close> of \<open>C x = r\<close> and then \<open>r\<^sup>T x\<close>, or the Cholesky
  factorisation, the solution by substitution and then the product. Any other name
  is the error of an invalid configuration.
\<close>

definition bilinear_form :: "vec \<Rightarrow> mat np \<Rightarrow> real np" where
  "bilinear_form r M = lift1 (\<lambda>A. dot (vec_mat r A) r) M"

definition apply_strategy :: "linalg \<Rightarrow> string \<Rightarrow> vec \<Rightarrow> mat np \<Rightarrow> error + real np" where
  "apply_strategy la s r C =
     (if s = ''inv'' then
        (case np_linalg_inv la C of Inl e \<Rightarrow> Inl (Library e) | Inr M \<Rightarrow> Inr (bilinear_form r M))
      else if s = ''pinv'' then
        (case np_linalg_pinv la C of Inl e \<Rightarrow> Inl (Library e) | Inr M \<Rightarrow> Inr (bilinear_form r M))
      else if s = ''solve'' then
        (case np_linalg_solve la C r of Inl e \<Rightarrow> Inl (Library e) | Inr x \<Rightarrow> Inr (lift1 (dot r) x))
      else if s = ''cholesky'' then
        (case cho_factor la C True of
           Inl e \<Rightarrow> Inl (Library e)
         | Inr F \<Rightarrow>
             (case cho_solve la F r of Inl e \<Rightarrow> Inl (Library e) | Inr x \<Rightarrow> Inr (lift1 (dot r) x)))
      else Inl UnknownInversionParameters)"

text \<open>
  The discrepancy vector, as specified: the computation applied to each pair on its
  own, in the order of the input; the exception of the first point that raises, when
  one does.
\<close>

fun all_or_first_error :: "(error + 'a) list \<Rightarrow> error + 'a list" where
  "all_or_first_error [] = Inr []"
| "all_or_first_error (Inl e # rs) = Inl e"
| "all_or_first_error (Inr v # rs) =
     (case all_or_first_error rs of Inl e \<Rightarrow> Inl e | Inr vs \<Rightarrow> Inr (v # vs))"

text \<open>
  The sample covariance matrix of \<open>N\<close> residuals of dimension \<open>d\<close>, as specified:
  one \<open>(d, d)\<close> matrix for the batch, whose entry \<open>(j, k)\<close> is the sum over the
  points of the products of the deviations of the components \<open>j\<close> and \<open>k\<close> from
  their averages, divided by \<open>N - 1\<close>.
\<close>

definition sample_covariance :: "vec list \<Rightarrow> mat" where
  "sample_covariance rs =
     (let N = length rs;
          d = ncols rs;
          avg = (\<lambda>j. (\<Sum>n\<leftarrow>[0..<N]. rs ! n ! j) / real N)
      in map (\<lambda>j. map (\<lambda>k. (\<Sum>n\<leftarrow>[0..<N]. (rs ! n ! j - avg j) * (rs ! n ! k - avg k))
                             / (real N - 1)) [0..<d]) [0..<d])"

text \<open>
  The result of \<open>nci\<close> on two vectors of positive discrepancies, as specified:
  \<open>10 * (mean (log10 A) - mean (log10 B))\<close>.
\<close>

definition nci_value :: "real list \<Rightarrow> real list \<Rightarrow> real" where
  "nci_value A B =
     10 * ((\<Sum>a\<leftarrow>A. log 10 a) / real (length A) - (\<Sum>b\<leftarrow>B. log 10 b) / real (length B))"

text \<open>
  A matrix is positive definite: its quadratic form is positive at every vector
  but zero. An invertible covariance matrix is.
\<close>

definition pos_def :: "mat \<Rightarrow> bool" where
  "pos_def C = (\<forall>x. length x = length C \<and> (\<exists>v \<in> set x. v \<noteq> 0) \<longrightarrow> 0 < dot x (mat_vec C x))"

section \<open>Exceptions of the discrepancy computation\<close>

lemma raised_not_unknown:
  "(\<And>a. k a \<noteq> Inl UnknownInversionParameters) \<Longrightarrow> raised r k \<noteq> Inl UnknownInversionParameters"
  by (cases r) (simp_all add: raised_def)

lemma discrepancy_unknown:
  "strategy cfg \<notin> {''inv'', ''pinv'', ''solve'', ''cholesky''} \<Longrightarrow>
     snd (compute_normalized_discrepancy la cfg m C) = Inl UnknownInversionParameters"
  by (simp add: compute_normalized_discrepancy_def Let_def)

lemma discrepancy_known:
  "strategy cfg \<in> {''inv'', ''pinv'', ''solve'', ''cholesky''} \<Longrightarrow>
     snd (compute_normalized_discrepancy la cfg m C) \<noteq> Inl UnknownInversionParameters"
  unfolding compute_normalized_discrepancy_def Let_def snd_conv
  by (auto intro!: raised_not_unknown simp del: One_nat_def)

lemma discrepancies_first_raises:
  "snd (compute_normalized_discrepancy la cfg m C) = Inl e \<Longrightarrow>
     snd (compute_normalized_discrepancies la cfg (m # ms) (C # Cs)) = Inl e"
  by (cases "compute_normalized_discrepancy la cfg m C") simp

lemma discrepancies_known:
  "strategy cfg \<in> {''inv'', ''pinv'', ''solve'', ''cholesky''} \<Longrightarrow>
     snd (compute_normalized_discrepancies la cfg ms Cs) \<noteq> Inl UnknownInversionParameters"
proof (induction la cfg ms Cs rule: compute_normalized_discrepancies.induct)
  case (1 la cfg m ms C Cs)
  obtain C' r where p: "compute_normalized_discrepancy la cfg m C = (C', r)"
    by (cases "compute_normalized_discrepancy la cfg m C")
  have r: "r \<noteq> Inl UnknownInversionParameters"
    using discrepancy_known [OF "1.prems", of la m C] p by simp
  show ?case
  proof (cases r)
    case (Inl e)
    with p r show ?thesis by simp
  next
    case (Inr v)
    obtain Cs' rs where q: "compute_normalized_discrepancies la cfg ms Cs = (Cs', rs)"
      by (cases "compute_normalized_discrepancies la cfg ms Cs")
    have "rs \<noteq> Inl UnknownInversionParameters"
      using "1.IH" [OF p [symmetric] Inr "1.prems"] q by simp
    with p q Inr show ?thesis by (cases rs) simp_all
  qed
qed simp_all


lemma anees_raises:
  "snd (compute_normalized_discrepancies la cfg (arr_sub (mean sol) ref) (cov sol)) = Inl e \<Longrightarrow>
     snd (anees la cfg sol ref) = Inl e"
  by (cases "compute_normalized_discrepancies la cfg (arr_sub (mean sol) ref) (cov sol)")
     (simp add: anees_def)

lemma nci_raises:
  "snd (compute_normalized_discrepancies la cfg (arr_sub (mean sol) ref) (cov sol)) = Inl e \<Longrightarrow>
     snd (nci la cfg sol ref) = Inl e"
  by (cases "compute_normalized_discrepancies la cfg (arr_sub (mean sol) ref) (cov sol)")
     (simp add: nci_def)

lemma anees_known:
  assumes "strategy cfg \<in> {''inv'', ''pinv'', ''solve'', ''cholesky''}"
  shows "snd (anees la cfg sol ref) \<noteq> Inl UnknownInversionParameters"
proof -
  obtain Cs' rs where q:
    "compute_normalized_discrepancies la cfg (arr_sub (mean sol) ref) (cov sol) = (Cs', rs)"
    by (cases "compute_normalized_discrepancies la cfg (arr_sub (mean sol) ref) (cov sol)")
  with discrepancies_known [OF assms, of la "arr_sub (mean sol) ref" "cov sol"]
  show ?thesis by (cases rs) (simp_all add: anees_def)
qed

lemma nci_known:
  assumes "strategy cfg \<in> {''inv'', ''pinv'', ''solve'', ''cholesky''}"
  shows "snd (nci la cfg sol ref) \<noteq> Inl UnknownInversionParameters"
proof -
  let ?r = "arr_sub (mean sol) ref"
  let ?S = "replicate (length ?r) (np_cov (mat_T ?r))"
  obtain Cs' rs where q: "compute_normalized_discrepancies la cfg ?r (cov sol) = (Cs', rs)"
    by (cases "compute_normalized_discrepancies la cfg ?r (cov sol)")
  obtain Cs2 rs2 where q2: "compute_normalized_discrepancies la cfg ?r ?S = (Cs2, rs2)"
    by (cases "compute_normalized_discrepancies la cfg ?r ?S")
  from discrepancies_known [OF assms, of la ?r "cov sol"] q
  have 1: "rs \<noteq> Inl UnknownInversionParameters" by simp
  from discrepancies_known [OF assms, of la ?r ?S] q2
  have 2: "rs2 \<noteq> Inl UnknownInversionParameters" by simp
  from q q2 1 2 show ?thesis
    by (cases rs; cases rs2) (simp_all add: nci_def Let_def)
qed

text \<open>
  Claim C4. When the configured strategy is none of \<^verbatim>\<open>inv\<close>, \<^verbatim>\<open>pinv\<close>, \<^verbatim>\<open>solve\<close>
  and \<^verbatim>\<open>cholesky\<close>, the discrepancy computation raises the error of an unknown
  configuration, whatever the residual, the covariance and the library routines, and
  so do \<open>anees\<close> and \<open>nci\<close> on a batch that is not empty. When the strategy is one
  of the four, none of the three raises that error.
\<close>

theorem unknown_strategy_raises:
  "(strategy cfg \<notin> {''inv'', ''pinv'', ''solve'', ''cholesky''} \<longrightarrow>
      snd (compute_normalized_discrepancy la cfg m C) = Inl UnknownInversionParameters \<and>
      (mean sol \<noteq> [] \<and> ref \<noteq> [] \<and> cov sol \<noteq> [] \<longrightarrow>
         snd (anees la cfg sol ref) = Inl UnknownInversionParameters \<and>
         snd (nci la cfg sol ref) = Inl UnknownInversionParameters)) \<and>
   (strategy cfg \<in> {''inv'', ''pinv'', ''solve'', ''cholesky''} \<longrightarrow>
      snd (compute_normalized_discrepancy la cfg m C) \<noteq> Inl UnknownInversionParameters \<and>
      snd (anees la cfg sol ref) \<noteq> Inl UnknownInversionParameters \<and>
      snd (nci la cfg sol ref) \<noteq> Inl UnknownInversionParameters)"
proof (intro conjI impI)
  assume u: "strategy cfg \<notin> {''inv'', ''pinv'', ''solve'', ''cholesky''}"
  show "snd (compute_normalized_discrepancy la cfg m C) = Inl UnknownInversionParameters"
    using u by (rule discrepancy_unknown)
  assume ne: "mean sol \<noteq> [] \<and> ref \<noteq> [] \<and> cov sol \<noteq> []"
  then obtain a as b bs c cs where
    "mean sol = a # as" "ref = b # bs" "cov sol = c # cs"
    by (cases "mean sol"; cases ref; cases "cov sol") auto
  then have "snd (compute_normalized_discrepancies la cfg (arr_sub (mean sol) ref) (cov sol))
      = Inl UnknownInversionParameters"
    using discrepancies_first_raises [OF discrepancy_unknown [OF u]]
    by (simp add: arr_sub_def)
  then show "snd (anees la cfg sol ref) = Inl UnknownInversionParameters"
    and "snd (nci la cfg sol ref) = Inl UnknownInversionParameters"
    by (rule anees_raises, rule nci_raises)
next
  assume k: "strategy cfg \<in> {''inv'', ''pinv'', ''solve'', ''cholesky''}"
  show "snd (compute_normalized_discrepancy la cfg m C) \<noteq> Inl UnknownInversionParameters"
    using k by (rule discrepancy_known)
  show "snd (anees la cfg sol ref) \<noteq> Inl UnknownInversionParameters"
    using k by (rule anees_known)
  show "snd (nci la cfg sol ref) \<noteq> Inl UnknownInversionParameters"
    using k by (rule nci_known)
qed

theorem unknown_strategy_raises_witness:
  "strategy \<lparr>symmetrize = False, damping = 0, strategy = ''bogus''\<rparr>
     \<notin> {''inv'', ''pinv'', ''solve'', ''cholesky''} \<and>
   snd (compute_normalized_discrepancy diagonal_linalg
          \<lparr>symmetrize = False, damping = 0, strategy = ''bogus''\<rparr> [1] (Fin [[1]]))
     = Inl UnknownInversionParameters \<and>
   snd (anees diagonal_linalg \<lparr>symmetrize = False, damping = 0, strategy = ''bogus''\<rparr>
          \<lparr>mean = [[1], [2]], cov = [Fin [[1]], Fin [[4]]]\<rparr> [[0], [4]])
     = Inl UnknownInversionParameters \<and>
   snd (nci diagonal_linalg \<lparr>symmetrize = False, damping = 0, strategy = ''bogus''\<rparr>
          \<lparr>mean = [[1], [2]], cov = [Fin [[1]], Fin [[4]]]\<rparr> [[0], [4]])
     = Inl UnknownInversionParameters \<and>
   strategy \<lparr>symmetrize = False, damping = 0, strategy = ''solve''\<rparr>
     \<in> {''inv'', ''pinv'', ''solve'', ''cholesky''} \<and>
   snd (anees diagonal_linalg \<lparr>symmetrize = False, damping = 0, strategy = ''solve''\<rparr>
          \<lparr>mean = [[1], [2]], cov = [Fin [[1]], Fin [[4]]]\<rparr> [[0], [4]])
     \<noteq> Inl UnknownInversionParameters \<and>
   snd (nci diagonal_linalg \<lparr>symmetrize = False, damping = 0, strategy = ''solve''\<rparr>
          \<lparr>mean = [[1], [2]], cov = [Fin [[1]], Fin [[4]]]\<rparr> [[0], [4]])
     \<noteq> Inl UnknownInversionParameters"
  using
    unknown_strategy_raises [of "\<lparr>symmetrize = False, damping = 0, strategy = ''bogus''\<rparr>"
      diagonal_linalg "[1]" "Fin [[1]]" "\<lparr>mean = [[1], [2]], cov = [Fin [[1]], Fin [[4]]]\<rparr>"
      "[[0], [4]]"]
    unknown_strategy_raises [of "\<lparr>symmetrize = False, damping = 0, strategy = ''solve''\<rparr>"
      diagonal_linalg "[1]" "Fin [[1]]" "\<lparr>mean = [[1], [2]], cov = [Fin [[1]], Fin [[4]]]\<rparr>"
      "[[0], [4]]"]
  by simp


section \<open>Vectors and matrices as lists\<close>

lemma dot_sum: "length a = length b \<Longrightarrow> dot a b = (\<Sum>i<length a. a ! i * b ! i)"
  by (simp add: dot_def sum_list_sum_nth atLeast0LessThan)

lemma square_row: "square d A \<Longrightarrow> i < d \<Longrightarrow> length (A ! i) = d"
  by (auto simp: square_def list_all_length)

lemma square_length: "square d A \<Longrightarrow> length A = d"
  by (simp add: square_def)

lemma square_ncols: "square d A \<Longrightarrow> ncols A = d"
  by (cases A) (auto simp: square_def ncols_def)

lemma squareI: "length A = d \<Longrightarrow> (\<And>i. i < d \<Longrightarrow> length (A ! i) = d) \<Longrightarrow> square d A"
  by (auto simp: square_def list_all_length)

lemma mat_eqI:
  assumes "square d A" "square d B" "\<And>i j. i < d \<Longrightarrow> j < d \<Longrightarrow> A ! i ! j = B ! i ! j"
  shows "A = B"
proof (rule nth_equalityI)
  show "length A = length B" using assms by (simp add: square_length)
  fix i assume "i < length A"
  then have i: "i < d" using assms(1) by (simp add: square_length)
  show "A ! i = B ! i"
    by (rule nth_equalityI) (use i assms in \<open>simp_all add: square_row\<close>)
qed

lemma col_nth: "i < length A \<Longrightarrow> col A j ! i = A ! i ! j"
  by (simp add: col_def)

lemma length_col: "length (col A j) = length A"
  by (simp add: col_def)

lemma mat_vec_nth: "i < length A \<Longrightarrow> mat_vec A x ! i = dot (A ! i) x"
  by (simp add: mat_vec_def)

lemma length_mat_vec: "length (mat_vec A x) = length A"
  by (simp add: mat_vec_def)

lemma vec_mat_nth: "square d A \<Longrightarrow> j < d \<Longrightarrow> vec_mat v A ! j = dot v (col A j)"
  by (simp add: vec_mat_def square_ncols)

lemma length_vec_mat: "square d A \<Longrightarrow> length (vec_mat v A) = d"
  by (simp add: vec_mat_def square_ncols)

lemma dot_row: "square d A \<Longrightarrow> length x = d \<Longrightarrow> i < d \<Longrightarrow> dot (A ! i) x = (\<Sum>j<d. A ! i ! j * x ! j)"
  by (simp add: dot_sum square_row)

lemma dot_col: "square d A \<Longrightarrow> length v = d \<Longrightarrow> dot v (col A j) = (\<Sum>i<d. v ! i * A ! i ! j)"
  by (simp add: dot_sum length_col square_length col_nth)

lemma dot_vec_mat:
  assumes "square d M" "length r = d" "length y = d"
  shows "dot (vec_mat r M) y = dot r (mat_vec M y)"
proof -
  have "dot (vec_mat r M) y = (\<Sum>j<d. (\<Sum>i<d. r ! i * M ! i ! j) * y ! j)"
    using assms by (simp add: dot_sum length_vec_mat vec_mat_nth dot_col)
  also have "\<dots> = (\<Sum>j<d. \<Sum>i<d. r ! i * (M ! i ! j * y ! j))"
    by (simp add: sum_distrib_right mult.assoc)
  also have "\<dots> = (\<Sum>i<d. \<Sum>j<d. r ! i * (M ! i ! j * y ! j))"
    by (rule sum.swap)
  also have "\<dots> = (\<Sum>i<d. r ! i * (\<Sum>j<d. M ! i ! j * y ! j))"
    by (simp add: sum_distrib_left)
  also have "\<dots> = dot r (mat_vec M y)"
    using assms by (simp add: dot_sum length_mat_vec square_length mat_vec_nth dot_row)
  finally show ?thesis .
qed

lemma mat_mul_nth:
  assumes "square d A" "square d B" "i < d" "k < d"
  shows "mat_mul A B ! i ! k = (\<Sum>j<d. A ! i ! j * B ! j ! k)"
  using assms by (simp add: mat_mul_def square_length vec_mat_nth dot_col square_row)

lemma square_mat_mul: "square d A \<Longrightarrow> square d B \<Longrightarrow> square d (mat_mul A B)"
  by (rule squareI) (simp_all add: mat_mul_def square_length length_vec_mat)

lemma mat_vec_mul:
  assumes "square d A" "square d B" "length x = d"
  shows "mat_vec (mat_mul A B) x = mat_vec A (mat_vec B x)"
proof (rule nth_equalityI)
  show "length (mat_vec (mat_mul A B) x) = length (mat_vec A (mat_vec B x))"
    by (simp add: length_mat_vec mat_mul_def)
  fix i assume "i < length (mat_vec (mat_mul A B) x)"
  then have i: "i < d" using assms by (simp add: length_mat_vec mat_mul_def square_length)
  have "mat_vec (mat_mul A B) x ! i = dot (vec_mat (A ! i) B) x"
    using i assms by (simp add: mat_vec_def mat_mul_def square_length)
  also have "\<dots> = dot (A ! i) (mat_vec B x)"
    using assms i by (intro dot_vec_mat) (simp_all add: square_row)
  also have "\<dots> = mat_vec A (mat_vec B x) ! i"
    using i assms by (simp add: mat_vec_nth square_length)
  finally show "mat_vec (mat_mul A B) x ! i = mat_vec A (mat_vec B x) ! i" .
qed

lemma square_eye: "square d (eye d)"
  by (rule squareI) (simp_all add: eye_def)

lemma eye_nth: "i < d \<Longrightarrow> j < d \<Longrightarrow> eye d ! i ! j = (if i = j then 1 else 0)"
  by (simp add: eye_def)

lemma mat_vec_eye: "length x = d \<Longrightarrow> mat_vec (eye d) x = x"
proof (rule nth_equalityI)
  assume l: "length x = d"
  show "length (mat_vec (eye d) x) = length x" using l by (simp add: length_mat_vec eye_def)
  fix i assume "i < length (mat_vec (eye d) x)"
  then have i: "i < d" by (simp add: length_mat_vec eye_def)
  have "mat_vec (eye d) x ! i = (\<Sum>j<d. (if i = j then 1 else 0) * x ! j)"
    using i l by (simp add: mat_vec_nth square_length [OF square_eye] dot_row [OF square_eye] eye_nth)
  also have "\<dots> = x ! i"
    using i by (simp add: if_distrib [of "\<lambda>c. c * _"] cong: if_cong)
  finally show "mat_vec (eye d) x ! i = x ! i" .
qed


lemma square_mat_T: "square d A \<Longrightarrow> square d (mat_T A)"
  by (rule squareI) (simp_all add: mat_T_def square_ncols length_col square_length)

lemma mat_T_nth: "square d A \<Longrightarrow> i < d \<Longrightarrow> j < d \<Longrightarrow> mat_T A ! i ! j = A ! j ! i"
  by (simp add: mat_T_def square_ncols col_nth square_length)

lemma square_mat_add: "square d A \<Longrightarrow> square d B \<Longrightarrow> square d (mat_add A B)"
  by (rule squareI) (simp_all add: mat_add_def square_length square_row)

lemma mat_add_nth:
  "square d A \<Longrightarrow> square d B \<Longrightarrow> i < d \<Longrightarrow> j < d \<Longrightarrow> mat_add A B ! i ! j = A ! i ! j + B ! i ! j"
  by (simp add: mat_add_def square_length square_row)

lemma square_mat_scal: "square d A \<Longrightarrow> square d (mat_scal c A)"
  by (rule squareI) (simp_all add: mat_scal_def square_length square_row)

lemma mat_scal_nth:
  "square d A \<Longrightarrow> i < d \<Longrightarrow> j < d \<Longrightarrow> mat_scal c A ! i ! j = c * A ! i ! j"
  by (simp add: mat_scal_def square_length square_row)

lemma square_symmetric_part: "square d C \<Longrightarrow> square d (symmetric_part C)"
  by (rule squareI) (simp_all add: symmetric_part_def square_length)

lemma square_damped: "square d C \<Longrightarrow> square d (damped c C)"
  by (rule squareI) (simp_all add: damped_def square_length)

lemma symmetrize_step:
  assumes "square d C"
  shows "mat_scal 0.5 (mat_add C (mat_T C)) = symmetric_part C"
proof (rule mat_eqI [of d])
  show "square d (mat_scal 0.5 (mat_add C (mat_T C)))"
    using assms by (intro square_mat_scal square_mat_add square_mat_T)
  show "square d (symmetric_part C)" using assms by (rule square_symmetric_part)
  fix i j assume "i < d" "j < d"
  then show "mat_scal 0.5 (mat_add C (mat_T C)) ! i ! j = symmetric_part C ! i ! j"
    using assms
    by (simp add: mat_scal_nth [of d] mat_add_nth [of d] mat_T_nth [of d] square_mat_add
        square_mat_T symmetric_part_def square_length)
qed

lemma damping_step:
  assumes "square d C"
  shows "mat_add C (mat_scal c (eye (length C))) = damped c C"
proof (rule mat_eqI [of d])
  have l: "length C = d" using assms by (rule square_length)
  show "square d (mat_add C (mat_scal c (eye (length C))))"
    using assms by (simp add: l square_mat_add square_mat_scal square_eye)
  show "square d (damped c C)" using assms by (rule square_damped)
  fix i j assume "i < d" "j < d"
  then show "mat_add C (mat_scal c (eye (length C))) ! i ! j = damped c C ! i ! j"
    using assms
    by (simp add: l mat_add_nth [of d] mat_scal_nth [of d] square_mat_scal square_eye eye_nth
        damped_def)
qed

lemma square_regularized: "square d C \<Longrightarrow> square d (regularized cfg C)"
  by (simp add: regularized_def Let_def square_symmetric_part square_damped)

lemma lift1_lift1: "lift1 f (lift1 g x) = lift1 (\<lambda>a. f (g a)) x"
  by (cases x) simp_all

lemma raised_case: "raised r k = (case r of Inl e \<Rightarrow> Inl (Library e) | Inr a \<Rightarrow> k a)"
  by (simp add: raised_def)

lemma discrepancy_steps:
  assumes "square d C"
  shows "snd (compute_normalized_discrepancy la cfg r (Fin C))
     = apply_strategy la (strategy cfg) r (Fin (regularized cfg C))"
proof -
  let ?C1 = "if symmetrize cfg then symmetric_part C else C"
  have 1: "(if symmetrize cfg then lift1 (mat_scal 0.5) (lift2 mat_add (Fin C) (lift1 mat_T (Fin C)))
            else Fin C) = Fin ?C1"
    using symmetrize_step [OF assms] by simp
  have sq: "square d ?C1" using assms by (simp add: square_symmetric_part)
  have 2: "(if damping cfg > 0.0
            then lift2 mat_add (Fin ?C1) (lift1 (\<lambda>A. mat_scal (damping cfg) (eye (length A))) (Fin ?C1))
            else Fin ?C1) = Fin (regularized cfg C)"
    using damping_step [OF sq, of "damping cfg"] by (simp add: regularized_def Let_def)
  show ?thesis
    unfolding compute_normalized_discrepancy_def Let_def 1 2 snd_conv apply_strategy_def
      raised_case bilinear_form_def
    by (auto simp: lift1_lift1 split: sum.splits prod.splits)
qed


section \<open>Evaluation at concrete arrays\<close>

lemmas array_defs =
  arr_sub_def dot_def ncols_def col_def mat_T_def mat_add_def mat_scal_def eye_def vec_mat_def
  mat_vec_def mat_mul_def square_def

lemmas diagonal_defs =
  diagonal_linalg_def is_diag_def diag_of_def of_diag_def

lemmas contract_defs =
  inv_ok_def pinv_ok_def solve_ok_def cholesky_ok_def inverse_of_def pseudo_inverse_of_def
  solution_of_def

section \<open>The order of the steps\<close>

text \<open>
  Claim C3. On a residual and a covariance matrix \<open>C\<close> of shape \<open>(d, d)\<close>, the
  function computes what the configured strategy gives on the regularised
  covariance: \<open>C\<close>, replaced by its symmetric part when symmetrisation is enabled,
  and then with the damping added on its diagonal when, and only when, the damping
  is strictly positive. A damping of zero adds nothing.
\<close>

theorem discrepancy_steps_in_order:
  "square d C \<longrightarrow>
     snd (compute_normalized_discrepancy la cfg r (Fin C))
       = apply_strategy la (strategy cfg) r (Fin (regularized cfg C)) \<and>
     (0 < damping cfg \<longrightarrow>
        regularized cfg C
          = damped (damping cfg) (if symmetrize cfg then symmetric_part C else C)) \<and>
     (\<not> 0 < damping cfg \<longrightarrow>
        regularized cfg C = (if symmetrize cfg then symmetric_part C else C)) \<and>
     (damping cfg = 0 \<longrightarrow>
        regularized cfg C = (if symmetrize cfg then symmetric_part C else C))"
  by (simp add: discrepancy_steps regularized_def Let_def)

theorem discrepancy_steps_in_order_witness:
  "square 2 [[1, 2], [0, 3]] \<and>
   regularized \<lparr>symmetrize = True, damping = 1, strategy = ''solve''\<rparr> [[1, 2], [0, 3]]
     = [[2, 1], [1, 4]] \<and>
   snd (compute_normalized_discrepancy diagonal_linalg
          \<lparr>symmetrize = True, damping = 1, strategy = ''solve''\<rparr> [2, 4] (Fin [[1, 2], [0, 3]]))
     = apply_strategy diagonal_linalg ''solve'' [2, 4] (Fin [[2, 1], [1, 4]]) \<and>
   regularized \<lparr>symmetrize = False, damping = 0, strategy = ''solve''\<rparr> [[1, 2], [0, 3]]
     = [[1, 2], [0, 3]] \<and>
   snd (compute_normalized_discrepancy diagonal_linalg
          \<lparr>symmetrize = False, damping = 0, strategy = ''solve''\<rparr> [2, 4] (Fin [[1, 0], [0, 4]]))
     = Inr (Fin 8)"
  using
    discrepancy_steps_in_order [of 2 "[[1, 2], [0, 3]]" diagonal_linalg
      "\<lparr>symmetrize = True, damping = 1, strategy = ''solve''\<rparr>" "[2, 4]"]
    discrepancy_steps_in_order [of 2 "[[1, 2], [0, 3]]" diagonal_linalg
      "\<lparr>symmetrize = False, damping = 0, strategy = ''solve''\<rparr>" "[2, 4]"]
    discrepancy_steps_in_order [of 2 "[[1, 0], [0, 4]]" diagonal_linalg
      "\<lparr>symmetrize = False, damping = 0, strategy = ''solve''\<rparr>" "[2, 4]"]
  by (simp add: square_def symmetric_part_def damped_def apply_strategy_def diagonal_defs dot_def
      upt_rec)

section \<open>The caller's covariance matrix\<close>

lemma callers_array_after:
  "fst (compute_normalized_discrepancy la cfg r (Fin C)) =
     (if \<not> symmetrize cfg \<and> 0 < damping cfg
      then Fin (mat_add C (mat_scal (damping cfg) (eye (length C)))) else Fin C)"
  by (simp add: compute_normalized_discrepancy_def Let_def)


text \<open>
  Claim C5 says that the caller's covariance matrix is unchanged by the call, also
  with symmetrisation disabled and a strictly positive damping. With that
  configuration, a damping of \<open>1\<close> and the matrix \<open>[[1]]\<close>, the caller's array
  holds \<open>[[2]]\<close> after the call: the in-place addition went into it. With
  symmetrisation enabled the same call leaves it as it was.
\<close>

theorem damping_writes_callers_array:
  "fst (compute_normalized_discrepancy la
          \<lparr>symmetrize = False, damping = 1, strategy = ''solve''\<rparr> [1] (Fin [[1]]))
     = Fin [[2]] \<and>
   fst (compute_normalized_discrepancy la
          \<lparr>symmetrize = True, damping = 1, strategy = ''solve''\<rparr> [1] (Fin [[1]]))
     = Fin [[1]]"
  by (simp add: compute_normalized_discrepancy_def Let_def array_defs)

section \<open>The scalar scenario\<close>

lemma solve_ok_scalar:
  assumes "solve_ok la [[c]] [b]" "c \<noteq> 0"
  shows "np_linalg_solve la (Fin [[c]]) [b] = Inr (Fin [b / c])"
proof -
  from assms(1) obtain x where x: "np_linalg_solve la (Fin [[c]]) [b] = Inr (Fin x)"
    and s: "solution_of [[c]] [b] x"
    by (auto simp: solve_ok_def split: sum.splits np.splits)
  from s obtain x0 where "x = [x0]"
    by (cases x) (auto simp: solution_of_def)
  with s assms(2) have "x = [b / c]"
    by (auto simp: solution_of_def mat_vec_def dot_def field_simps)
  with x show ?thesis by simp
qed

lemma discrepancy_scalar_solve:
  assumes "solve_ok la [[c]] [b]" "c \<noteq> 0"
  shows "compute_normalized_discrepancy la
           \<lparr>symmetrize = False, damping = 0, strategy = ''solve''\<rparr> [b] (Fin [[c]])
         = (Fin [[c]], Inr (Fin (b * (b / c))))"
  using solve_ok_scalar [OF assms]
  by (simp add: compute_normalized_discrepancy_def Let_def raised_def dot_def)

text \<open>
  Claim C1. With \<open>d = 1\<close> and \<open>N = 3\<close>, means \<open>1, 2, 3\<close>, reference \<open>0, 2, 5\<close>,
  covariances \<open>1, 1, 4\<close>, the strategy \<^verbatim>\<open>solve\<close>, no symmetrisation and no damping,
  the residuals are \<open>1, 0, -2\<close>, the discrepancies are \<open>1, 0, 1\<close> and \<open>anees\<close>
  returns \<open>2 / 3\<close>, for every backend whose \<^verbatim>\<open>solve\<close> answers the three systems of
  the scenario with a solution.
\<close>

theorem scalar_scenario:
  assumes "solve_ok la [[1]] [1]" and "solve_ok la [[1]] [0]" and "solve_ok la [[4]] [- 2]"
  shows "arr_sub [[1], [2], [3]] [[0], [2], [5]] = [[1], [0], [- 2]] \<and>
    snd (compute_normalized_discrepancies la
           \<lparr>symmetrize = False, damping = 0, strategy = ''solve''\<rparr>
           [[1], [0], [- 2]] [Fin [[1]], Fin [[1]], Fin [[4]]])
      = Inr [Fin 1, Fin 0, Fin 1] \<and>
    snd (anees la \<lparr>symmetrize = False, damping = 0, strategy = ''solve''\<rparr>
           \<lparr>mean = [[1], [2], [3]], cov = [Fin [[1]], Fin [[1]], Fin [[4]]]\<rparr>
           [[0], [2], [5]])
      = Inr (Fin (2 / 3))"
  using discrepancy_scalar_solve [OF assms(1)] discrepancy_scalar_solve [OF assms(2)]
    discrepancy_scalar_solve [OF assms(3)]
  by (simp add: anees_def arr_sub_def np_mean_def np_sum_def)

theorem scalar_scenario_witness:
  "solve_ok diagonal_linalg [[1]] [1] \<and> solve_ok diagonal_linalg [[1]] [0] \<and>
   solve_ok diagonal_linalg [[4]] [- 2] \<and>
   snd (compute_normalized_discrepancies diagonal_linalg
          \<lparr>symmetrize = False, damping = 0, strategy = ''solve''\<rparr>
          [[1], [0], [- 2]] [Fin [[1]], Fin [[1]], Fin [[4]]])
     = Inr [Fin 1, Fin 0, Fin 1] \<and>
   snd (anees diagonal_linalg \<lparr>symmetrize = False, damping = 0, strategy = ''solve''\<rparr>
          \<lparr>mean = [[1], [2], [3]], cov = [Fin [[1]], Fin [[1]], Fin [[4]]]\<rparr>
          [[0], [2], [5]])
     = Inr (Fin (2 / 3))"
proof -
  have 1: "solve_ok diagonal_linalg [[1]] [1]"
    by (simp add: solve_ok_def solution_of_def diagonal_defs mat_vec_def dot_def)
  have 2: "solve_ok diagonal_linalg [[1]] [0]"
    by (simp add: solve_ok_def solution_of_def diagonal_defs mat_vec_def dot_def)
  have 3: "solve_ok diagonal_linalg [[4]] [- 2]"
    by (simp add: solve_ok_def solution_of_def diagonal_defs mat_vec_def dot_def)
  from scalar_scenario [OF 1 2 3] 1 2 3 show ?thesis by simp
qed


section \<open>The average of the discrepancies\<close>

lemma discrepancies_pointwise:
  "snd (compute_normalized_discrepancies la cfg ms Cs)
     = all_or_first_error (map (\<lambda>(m, C). snd (compute_normalized_discrepancy la cfg m C)) (zip ms Cs))"
proof (induction la cfg ms Cs rule: compute_normalized_discrepancies.induct)
  case (1 la cfg m ms C Cs)
  obtain C' r where p: "compute_normalized_discrepancy la cfg m C = (C', r)"
    by (cases "compute_normalized_discrepancy la cfg m C")
  show ?case
  proof (cases r)
    case (Inl e)
    with p show ?thesis by simp
  next
    case (Inr v)
    obtain Cs' rs where q: "compute_normalized_discrepancies la cfg ms Cs = (Cs', rs)"
      by (cases "compute_normalized_discrepancies la cfg ms Cs")
    have ih: "all_or_first_error
        (map (\<lambda>(m, C). snd (compute_normalized_discrepancy la cfg m C)) (zip ms Cs)) = rs"
      using "1.IH" [OF p [symmetric] Inr] q by simp
    show ?thesis
      using p q Inr by (simp add: ih split: sum.splits)
  qed
qed simp_all

lemma zip_points:
  assumes "length ms = N" "length rf = N" "length Cs = N"
  shows "zip (arr_sub ms rf) Cs = map (\<lambda>i. (map2 (-) (ms ! i) (rf ! i), Cs ! i)) [0..<N]"
  using assms by (intro nth_equalityI) (simp_all add: arr_sub_def)

lemma all_or_first_error_values: "all_or_first_error (map Inr vs) = Inr vs"
  by (induction vs) simp_all

lemma np_sum_Fin: "np_sum (map Fin xs) = Fin (sum_list xs)"
  by (induction xs) (simp_all add: np_sum_def)

lemma np_mean_Fin: "xs \<noteq> [] \<Longrightarrow> np_mean (map Fin xs) = Fin (sum_list xs / real (length xs))"
  by (simp add: np_mean_def np_sum_Fin)

lemma anees_outcome:
  "snd (anees la cfg sol rf)
     = map_sum id np_mean
         (snd (compute_normalized_discrepancies la cfg (arr_sub (mean sol) rf) (cov sol)))"
  by (cases "compute_normalized_discrepancies la cfg (arr_sub (mean sol) rf) (cov sol)")
     (auto simp: anees_def split: sum.splits)

text \<open>
  Claim C7. On a batch of \<open>N > 0\<close> points, \<open>anees\<close> returns the arithmetic mean of
  the discrepancy vector, whose entry \<open>i\<close> is the discrepancy computed from the
  residual \<open>mean\<^sub>i - reference\<^sub>i\<close> and the covariance of point \<open>i\<close> alone, the
  entries standing in the order of the input; when the entries are the numbers
  \<open>ds\<close>, the value is their sum divided by \<open>N\<close>. An exception of a point is the
  outcome of \<open>anees\<close>, the first one in the order of the input.
\<close>

theorem anees_is_mean_of_discrepancies:
  assumes "length (mean sol) = N" and "length rf = N" and "length (cov sol) = N" and "0 < N"
  shows "snd (anees la cfg sol rf)
      = map_sum id np_mean
          (all_or_first_error
             (map (\<lambda>i. snd (compute_normalized_discrepancy la cfg
                                (map2 (-) (mean sol ! i) (rf ! i)) (cov sol ! i))) [0..<N])) \<and>
    (length ds = N \<and>
     (\<forall>i<N. snd (compute_normalized_discrepancy la cfg
                   (map2 (-) (mean sol ! i) (rf ! i)) (cov sol ! i)) = Inr (Fin (ds ! i)))
     \<longrightarrow> snd (anees la cfg sol rf) = Inr (Fin (sum_list ds / real N)))"
proof -
  let ?p = "\<lambda>i. snd (compute_normalized_discrepancy la cfg
                      (map2 (-) (mean sol ! i) (rf ! i)) (cov sol ! i))"
  have g: "snd (anees la cfg sol rf)
      = map_sum id np_mean (all_or_first_error (map ?p [0..<N]))"
    by (simp add: anees_outcome discrepancies_pointwise zip_points [OF assms(1-3)] o_def)
  have "snd (anees la cfg sol rf) = Inr (Fin (sum_list ds / real N))"
    if l: "length ds = N" and v: "\<forall>i<N. ?p i = Inr (Fin (ds ! i))"
  proof -
    have "map ?p [0..<N] = map Inr (map Fin ds)"
      using l v by (intro nth_equalityI) simp_all
    moreover have "np_mean (map Fin ds) = Fin (sum_list ds / real N)"
      using l assms(4) np_mean_Fin [of ds] by auto
    ultimately show ?thesis
      unfolding g by (simp only: all_or_first_error_values map_sum.simps)
  qed
  with g show ?thesis by blast
qed

theorem anees_is_mean_of_discrepancies_witness:
  "snd (anees diagonal_linalg \<lparr>symmetrize = False, damping = 0, strategy = ''inv''\<rparr>
          \<lparr>mean = [[1, 1], [2, 0]], cov = [Fin [[1, 0], [0, 2]], Fin [[4, 0], [0, 1]]]\<rparr>
          [[0, 3], [0, 0]])
     = Inr (Fin (sum_list [3, 1] / 2))"
proof -
  let ?sol = "\<lparr>mean = [[1, 1], [2, 0]], cov = [Fin [[1, 0], [0, 2]], Fin [[4, 0], [0, 1]]]\<rparr>"
  let ?rf = "[[0, 3], [0, 0 :: real]]"
  let ?cfg = "\<lparr>symmetrize = False, damping = 0, strategy = ''inv''\<rparr>"
  have p: "\<forall>i<2. snd (compute_normalized_discrepancy diagonal_linalg ?cfg
                   (map2 (-) (mean ?sol ! i) (?rf ! i)) (cov ?sol ! i)) = Inr (Fin ([3, 1] ! i))"
    by (simp add: less_Suc_eq numeral_2_eq_2 compute_normalized_discrepancy_def Let_def raised_def
        diagonal_defs array_defs upt_rec)
  have "length (mean ?sol) = 2" "length ?rf = 2" "length (cov ?sol) = 2" "0 < (2::nat)"
    "length [3, 1 :: real] = 2"
    by simp_all
  note t = anees_is_mean_of_discrepancies [OF this(1-4), of diagonal_linalg ?cfg "[3, 1]",
      THEN conjunct2, THEN mp, OF conjI, OF this(5) p]
  then show ?thesis by simp
qed

section \<open>Inverse and solution\<close>

lemma left_inverse_solution:
  assumes "square d C" "square d M" "mat_mul M C = eye d" "solution_of C r x"
  shows "x = mat_vec M r"
proof -
  have lx: "length x = d" using assms(1,4) by (simp add: solution_of_def square_length)
  have "mat_vec M r = mat_vec M (mat_vec C x)"
    using assms(4) by (simp add: solution_of_def)
  also have "\<dots> = mat_vec (mat_mul M C) x"
    using assms(1,2) lx by (simp add: mat_vec_mul)
  also have "\<dots> = x"
    using lx by (simp add: assms(3) mat_vec_eye)
  finally show ?thesis by simp
qed

lemma inverse_path_value:
  assumes "square d C" "square d M" "mat_mul M C = eye d" "solution_of C r x" "length r = d"
  shows "dot (vec_mat r M) r = dot r x"
  using dot_vec_mat [OF assms(2,5,5)] left_inverse_solution [OF assms(1-4)] by simp

lemma regularized_strategy [simp]: "regularized (cfg\<lparr>strategy := s\<rparr>) C = regularized cfg C"
  by (simp add: regularized_def)

lemma inv_okD:
  assumes "inv_ok la A"
  obtains M where "np_linalg_inv la (Fin A) = Inr (Fin M)" "inverse_of A M"
  using assms by (auto simp: inv_ok_def split: sum.splits np.splits)

lemma pinv_okD:
  assumes "pinv_ok la A"
  obtains P where "np_linalg_pinv la (Fin A) = Inr (Fin P)" "pseudo_inverse_of A P"
  using assms by (auto simp: pinv_ok_def split: sum.splits np.splits)

lemma solve_okD:
  assumes "solve_ok la A b"
  obtains x where "np_linalg_solve la (Fin A) b = Inr (Fin x)" "solution_of A b x"
  using assms by (auto simp: solve_ok_def split: sum.splits np.splits)

lemma cholesky_okD:
  assumes "cholesky_ok la A b"
  obtains F x where "cho_factor la (Fin A) True = Inr F" "cho_solve la F b = Inr (Fin x)"
    "solution_of A b x"
  using assms by (auto simp: cholesky_ok_def split: sum.splits np.splits)

lemma inverse_ofD:
  assumes "inverse_of A M" "square d A"
  shows "square d M" "mat_mul M A = eye d" "mat_mul A M = eye d"
  using assms by (simp_all add: inverse_of_def square_length)

text \<open>
  Claim C10. On a residual \<open>r\<close> and a covariance whose regularised matrix the
  backend inverts and solves as numpy promises (the answer of \<^verbatim>\<open>inv\<close> is an inverse,
  the answer of \<^verbatim>\<open>solve\<close> a solution), the strategies \<^verbatim>\<open>inv\<close> and \<^verbatim>\<open>solve\<close>
  return the same number, and it is \<open>r\<^sup>T M r\<close> for every inverse \<open>M\<close> of the
  regularised matrix.
\<close>

theorem inv_and_solve_agree:
  assumes "square d C" and "length r = d"
    and "inv_ok la (regularized cfg C)" and "solve_ok la (regularized cfg C) r"
  shows "snd (compute_normalized_discrepancy la (cfg\<lparr>strategy := ''inv''\<rparr>) r (Fin C))
       = snd (compute_normalized_discrepancy la (cfg\<lparr>strategy := ''solve''\<rparr>) r (Fin C)) \<and>
    (\<forall>M. inverse_of (regularized cfg C) M \<longrightarrow>
       snd (compute_normalized_discrepancy la (cfg\<lparr>strategy := ''solve''\<rparr>) r (Fin C))
         = Inr (Fin (dot (vec_mat r M) r)))"
proof -
  let ?R = "regularized cfg C"
  have sq: "square d ?R" using assms(1) by (rule square_regularized)
  from assms(3) obtain M where M: "np_linalg_inv la (Fin ?R) = Inr (Fin M)" "inverse_of ?R M"
    by (rule inv_okD)
  from assms(4) obtain x where x: "np_linalg_solve la (Fin ?R) r = Inr (Fin x)" "solution_of ?R r x"
    by (rule solve_okD)
  have i: "snd (compute_normalized_discrepancy la (cfg\<lparr>strategy := ''inv''\<rparr>) r (Fin C))
      = Inr (Fin (dot (vec_mat r M) r))"
    using M(1) by (simp add: discrepancy_steps [OF assms(1)] apply_strategy_def bilinear_form_def)
  have s: "snd (compute_normalized_discrepancy la (cfg\<lparr>strategy := ''solve''\<rparr>) r (Fin C))
      = Inr (Fin (dot r x))"
    using x(1) by (simp add: discrepancy_steps [OF assms(1)] apply_strategy_def)
  have v: "dot (vec_mat r M') r = dot r x" if "inverse_of ?R M'" for M'
    using inverse_path_value [OF sq inverse_ofD(1,2) [OF that sq] x(2) assms(2)] .
  from i s v [OF M(2)] v show ?thesis by simp
qed

theorem inv_and_solve_agree_witness:
  "snd (compute_normalized_discrepancy diagonal_linalg
          \<lparr>symmetrize = True, damping = 1, strategy = ''inv''\<rparr> [2, 4] (Fin [[1, 0], [0, 3]]))
     = snd (compute_normalized_discrepancy diagonal_linalg
          \<lparr>symmetrize = True, damping = 1, strategy = ''solve''\<rparr> [2, 4] (Fin [[1, 0], [0, 3]])) \<and>
   inverse_of [[2, 0], [0, 4]] [[1 / 2, 0], [0, 1 / 4]] \<and>
   snd (compute_normalized_discrepancy diagonal_linalg
          \<lparr>symmetrize = True, damping = 1, strategy = ''solve''\<rparr> [2, 4] (Fin [[1, 0], [0, 3]]))
     = Inr (Fin 6)"
proof -
  let ?cfg = "\<lparr>symmetrize = True, damping = 1, strategy = ''solve''\<rparr>"
  let ?C = "[[1, 0], [0, 3 :: real]]"
  have R: "regularized ?cfg ?C = [[2, 0], [0, 4]]"
    by (simp add: regularized_def symmetric_part_def damped_def upt_rec)
  have 1: "square 2 ?C" "length [2, 4 :: real] = 2"
    by (simp_all add: square_def)
  have 2: "inv_ok diagonal_linalg (regularized ?cfg ?C)"
    unfolding R by (simp add: contract_defs diagonal_defs array_defs upt_rec)
  have 3: "solve_ok diagonal_linalg (regularized ?cfg ?C) [2, 4]"
    unfolding R by (simp add: contract_defs diagonal_defs array_defs upt_rec)
  have 4: "inverse_of (regularized ?cfg ?C) [[1 / 2, 0], [0, 1 / 4]]"
    unfolding R by (simp add: contract_defs array_defs upt_rec)
  have 5: "dot (vec_mat [2, 4] [[1 / 2, 0], [0, 1 / 4]]) [2, 4] = 6"
    by (simp add: array_defs upt_rec)
  from inv_and_solve_agree [OF 1 2 3] 4 5 R show ?thesis by simp
qed

section \<open>Multiples of the identity and of a matrix\<close>

lemma dot_scal_left: "dot (map ((*) c) a) b = c * dot a b"
proof (induction a arbitrary: b)
  case Nil
  show ?case by (simp add: dot_def)
next
  case (Cons v a)
  then show ?case by (cases b) (simp_all add: dot_def algebra_simps)
qed

lemma dot_scal_right: "dot a (map ((*) c) b) = c * dot a b"
proof (induction a arbitrary: b)
  case Nil
  show ?case by (simp add: dot_def)
next
  case (Cons v a)
  then show ?case by (cases b) (simp_all add: dot_def algebra_simps)
qed

lemma dot_commute: "dot a b = dot b a"
proof (induction a arbitrary: b)
  case Nil
  show ?case by (simp add: dot_def)
next
  case (Cons v a)
  then show ?case by (cases b) (simp_all add: dot_def)
qed

lemma mat_vec_scal: "mat_vec (mat_scal c A) x = map ((*) c) (mat_vec A x)"
  by (simp add: mat_vec_def mat_scal_def dot_scal_left o_def)

lemma dot_divide_right: "dot r (map (\<lambda>v. v / s) x) = dot r x / s"
proof -
  have "map (\<lambda>v. v / s) x = map ((*) (1 / s)) x" by simp
  then show ?thesis by (simp add: dot_scal_right del: map_eq_conv)
qed

lemma solution_of_scaled:
  assumes "solution_of A b x" "k \<noteq> 0"
  shows "solution_of (mat_scal k A) b (map (\<lambda>v. v / k) x)"
proof -
  have "mat_vec A (map (\<lambda>v. v / k) x) = map (\<lambda>v. v / k) (mat_vec A x)"
    by (simp add: mat_vec_def dot_divide_right)
  moreover have "length (mat_scal k A) = length A" by (simp add: mat_scal_def)
  ultimately show ?thesis
    using assms by (simp add: solution_of_def mat_vec_scal o_def)
qed

lemma length_eye: "length (eye d) = d"
  by (simp add: eye_def)

lemma solution_of_eye: "length r = d \<Longrightarrow> solution_of (eye d) r r"
  by (simp add: solution_of_def mat_vec_eye length_eye)

lemma solution_of_scaled_eye:
  assumes "length r = d" "s \<noteq> 0"
  shows "solution_of (mat_scal s (eye d)) r (map (\<lambda>v. v / s) r)"
  using solution_of_scaled [OF solution_of_eye [OF assms(1)] assms(2)] .

lemma scaled_eye_solution_unique:
  assumes "solution_of (mat_scal s (eye d)) r x" "s \<noteq> 0"
  shows "x = map (\<lambda>v. v / s) r"
proof -
  have lx: "length x = d" using assms(1) by (simp add: solution_of_def mat_scal_def eye_def)
  have "r = map ((*) s) x"
    using assms(1) lx by (simp add: solution_of_def mat_vec_scal mat_vec_eye)
  then show ?thesis using assms(2) by (simp add: o_def)
qed

lemma mat_mul_scaled_eye_right:
  assumes "square d A"
  shows "mat_mul A (mat_scal s (eye d)) = mat_scal s A"
proof (rule mat_eqI [of d])
  have sq: "square d (mat_scal s (eye d))" by (simp add: square_mat_scal square_eye)
  show "square d (mat_mul A (mat_scal s (eye d)))" using assms sq by (rule square_mat_mul)
  show "square d (mat_scal s A)" using assms by (rule square_mat_scal)
  fix i j assume ij: "i < d" "j < d"
  have "mat_mul A (mat_scal s (eye d)) ! i ! j = (\<Sum>l<d. A ! i ! l * (s * (if l = j then 1 else 0)))"
    using ij assms sq
    by (simp add: mat_mul_nth [of d] mat_scal_nth [of d] square_eye eye_nth)
  also have "\<dots> = (\<Sum>l<d. if l = j then s * A ! i ! j else 0)"
    by (rule sum.cong) simp_all
  also have "\<dots> = s * A ! i ! j" using ij by simp
  finally show "mat_mul A (mat_scal s (eye d)) ! i ! j = mat_scal s A ! i ! j"
    using ij assms by (simp add: mat_scal_nth [of d])
qed

lemma mat_mul_scaled_eye_left:
  assumes "square d A"
  shows "mat_mul (mat_scal s (eye d)) A = mat_scal s A"
proof (rule mat_eqI [of d])
  have sq: "square d (mat_scal s (eye d))" by (simp add: square_mat_scal square_eye)
  show "square d (mat_mul (mat_scal s (eye d)) A)" using sq assms by (rule square_mat_mul)
  show "square d (mat_scal s A)" using assms by (rule square_mat_scal)
  fix i j assume ij: "i < d" "j < d"
  have "mat_mul (mat_scal s (eye d)) A ! i ! j = (\<Sum>l<d. s * (if i = l then 1 else 0) * A ! l ! j)"
    using ij assms sq
    by (simp add: mat_mul_nth [of d] mat_scal_nth [of d] square_eye eye_nth)
  also have "\<dots> = (\<Sum>l<d. if i = l then s * A ! i ! j else 0)"
    by (rule sum.cong) simp_all
  also have "\<dots> = s * A ! i ! j" using ij by simp
  finally show "mat_mul (mat_scal s (eye d)) A ! i ! j = mat_scal s A ! i ! j"
    using ij assms by (simp add: mat_scal_nth [of d])
qed

lemma pseudo_inverse_of_scaled_eye:
  assumes "pseudo_inverse_of (mat_scal s (eye d)) P" "s \<noteq> 0"
  shows "square d P" "mat_mul P (mat_scal s (eye d)) = eye d"
proof -
  let ?C = "mat_scal s (eye d)"
  have l: "length ?C = d" by (simp add: mat_scal_def eye_def)
  show sq: "square d P" using assms(1) by (simp add: pseudo_inverse_of_def l)
  have "mat_mul (mat_mul ?C P) ?C = ?C" using assms(1) by (simp add: pseudo_inverse_of_def)
  then have e: "mat_scal s (mat_scal s P) = ?C"
    using sq by (simp add: mat_mul_scaled_eye_left mat_mul_scaled_eye_right square_mat_scal)
  have "mat_scal s P = eye d"
  proof (rule mat_eqI [of d])
    show "square d (mat_scal s P)" using sq by (rule square_mat_scal)
    show "square d (eye d)" by (rule square_eye)
    fix i j assume ij: "i < d" "j < d"
    have "mat_scal s (mat_scal s P) ! i ! j = ?C ! i ! j" by (simp only: e)
    then have "s * (s * P ! i ! j) = s * eye d ! i ! j"
      using ij sq by (simp add: mat_scal_nth [of d] square_mat_scal square_eye)
    then show "mat_scal s P ! i ! j = eye d ! i ! j"
      using ij sq assms(2) by (simp add: mat_scal_nth [of d])
  qed
  then show "mat_mul P ?C = eye d"
    using sq by (simp add: mat_mul_scaled_eye_right)
qed


lemma regularized_off: "\<not> symmetrize cfg \<Longrightarrow> damping cfg = 0 \<Longrightarrow> regularized cfg C = C"
  by (simp add: regularized_def)

text \<open>
  Claim C6. With the covariance \<open>\<sigma>\<^sup>2 I\<close>, \<open>\<sigma>\<^sup>2 > 0\<close>, no symmetrisation and no
  damping, each of the four strategies returns \<open>\<parallel>r\<parallel>\<^sup>2 / \<sigma>\<^sup>2\<close>, so the four agree,
  when the library routine of the strategy answers as its documentation promises:
  \<^verbatim>\<open>inv\<close> with an inverse, \<^verbatim>\<open>pinv\<close> with a Moore-Penrose pseudo-inverse,
  \<^verbatim>\<open>solve\<close> and the Cholesky pair with a solution of the system.
\<close>

theorem strategies_agree_on_scaled_identity:
  assumes "0 < s" and "length r = d" and "\<not> symmetrize cfg" and "damping cfg = 0"
  shows
    "(strategy cfg = ''inv'' \<and> inv_ok la (mat_scal s (eye d)) \<longrightarrow>
        snd (compute_normalized_discrepancy la cfg r (Fin (mat_scal s (eye d))))
          = Inr (Fin (dot r r / s))) \<and>
     (strategy cfg = ''pinv'' \<and> pinv_ok la (mat_scal s (eye d)) \<longrightarrow>
        snd (compute_normalized_discrepancy la cfg r (Fin (mat_scal s (eye d))))
          = Inr (Fin (dot r r / s))) \<and>
     (strategy cfg = ''solve'' \<and> solve_ok la (mat_scal s (eye d)) r \<longrightarrow>
        snd (compute_normalized_discrepancy la cfg r (Fin (mat_scal s (eye d))))
          = Inr (Fin (dot r r / s))) \<and>
     (strategy cfg = ''cholesky'' \<and> cholesky_ok la (mat_scal s (eye d)) r \<longrightarrow>
        snd (compute_normalized_discrepancy la cfg r (Fin (mat_scal s (eye d))))
          = Inr (Fin (dot r r / s)))"
proof -
  let ?C = "mat_scal s (eye d)"
  have s0: "s \<noteq> 0" using assms(1) by simp
  have sq: "square d ?C" by (simp add: square_mat_scal square_eye)
  have st: "snd (compute_normalized_discrepancy la cfg r (Fin ?C))
      = apply_strategy la (strategy cfg) r (Fin ?C)"
    using discrepancy_steps [OF sq, of la cfg r] regularized_off [OF assms(3,4)] by simp
  have sol: "solution_of ?C r (map (\<lambda>v. v / s) r)"
    using assms(2) s0 by (rule solution_of_scaled_eye)
  have val: "dot r x = dot r r / s" if "solution_of ?C r x" for x
    using scaled_eye_solution_unique [OF that s0] by (simp add: dot_divide_right)
  have left: "dot (vec_mat r M) r = dot r r / s" if "square d M" "mat_mul M ?C = eye d" for M
    using inverse_path_value [OF sq that sol assms(2)] by (simp add: dot_divide_right)
  have "apply_strategy la ''inv'' r (Fin ?C) = Inr (Fin (dot r r / s))" if "inv_ok la ?C"
  proof -
    from that obtain M where M: "np_linalg_inv la (Fin ?C) = Inr (Fin M)" "inverse_of ?C M"
      by (rule inv_okD)
    from left [OF inverse_ofD(1,2) [OF M(2) sq]] M(1) show ?thesis
      by (simp add: apply_strategy_def bilinear_form_def)
  qed
  moreover have "apply_strategy la ''pinv'' r (Fin ?C) = Inr (Fin (dot r r / s))"
    if "pinv_ok la ?C"
  proof -
    from that obtain P where P: "np_linalg_pinv la (Fin ?C) = Inr (Fin P)"
      "pseudo_inverse_of ?C P"
      by (rule pinv_okD)
    from left [OF pseudo_inverse_of_scaled_eye [OF P(2) s0]] P(1) show ?thesis
      by (simp add: apply_strategy_def bilinear_form_def)
  qed
  moreover have "apply_strategy la ''solve'' r (Fin ?C) = Inr (Fin (dot r r / s))"
    if "solve_ok la ?C r"
  proof -
    from that obtain x where x: "np_linalg_solve la (Fin ?C) r = Inr (Fin x)"
      "solution_of ?C r x"
      by (rule solve_okD)
    from val [OF x(2)] x(1) show ?thesis by (simp add: apply_strategy_def)
  qed
  moreover have "apply_strategy la ''cholesky'' r (Fin ?C) = Inr (Fin (dot r r / s))"
    if "cholesky_ok la ?C r"
  proof -
    from that obtain F x where x: "cho_factor la (Fin ?C) True = Inr F"
      "cho_solve la F r = Inr (Fin x)" "solution_of ?C r x"
      by (rule cholesky_okD)
    from val [OF x(3)] x(1,2) show ?thesis by (simp add: apply_strategy_def)
  qed
  ultimately show ?thesis unfolding st by auto
qed

theorem strategies_agree_on_scaled_identity_witness:
  "mat_scal 4 (eye 2) = [[4, 0], [0, 4]] \<and> dot [2, 4] [2, 4] / 4 = (5 :: real) \<and>
   inv_ok diagonal_linalg [[4, 0], [0, 4]] \<and> pinv_ok diagonal_linalg [[4, 0], [0, 4]] \<and>
   solve_ok diagonal_linalg [[4, 0], [0, 4]] [2, 4] \<and>
   cholesky_ok diagonal_linalg [[4, 0], [0, 4]] [2, 4] \<and>
   snd (compute_normalized_discrepancy diagonal_linalg
          \<lparr>symmetrize = False, damping = 0, strategy = ''inv''\<rparr> [2, 4] (Fin [[4, 0], [0, 4]]))
     = Inr (Fin 5) \<and>
   snd (compute_normalized_discrepancy diagonal_linalg
          \<lparr>symmetrize = False, damping = 0, strategy = ''pinv''\<rparr> [2, 4] (Fin [[4, 0], [0, 4]]))
     = Inr (Fin 5) \<and>
   snd (compute_normalized_discrepancy diagonal_linalg
          \<lparr>symmetrize = False, damping = 0, strategy = ''solve''\<rparr> [2, 4] (Fin [[4, 0], [0, 4]]))
     = Inr (Fin 5) \<and>
   snd (compute_normalized_discrepancy diagonal_linalg
          \<lparr>symmetrize = False, damping = 0, strategy = ''cholesky''\<rparr> [2, 4] (Fin [[4, 0], [0, 4]]))
     = Inr (Fin 5)"
proof -
  have C: "mat_scal 4 (eye 2) = [[4, 0], [0, 4]]"
    by (simp add: array_defs upt_rec)
  have n: "dot [2, 4] [2, 4] / 4 = (5 :: real)"
    by (simp add: dot_def)
  have 1: "inv_ok diagonal_linalg [[4, 0], [0, 4]]"
    by (simp add: contract_defs diagonal_defs array_defs upt_rec)
  have 2: "pinv_ok diagonal_linalg [[4, 0], [0, 4]]"
    by (simp add: contract_defs diagonal_defs array_defs upt_rec)
  have 3: "solve_ok diagonal_linalg [[4, 0], [0, 4]] [2, 4]"
    by (simp add: contract_defs diagonal_defs array_defs upt_rec)
  have 4: "cholesky_ok diagonal_linalg [[4, 0], [0, 4]] [2, 4]"
    by (simp add: contract_defs diagonal_defs array_defs upt_rec)
  have h: "(0 :: real) < 4" "length [2, 4 :: real] = 2" by simp_all
  note t = strategies_agree_on_scaled_identity [OF h, unfolded C n]
  from t [of "\<lparr>symmetrize = False, damping = 0, strategy = ''inv''\<rparr>" diagonal_linalg]
    t [of "\<lparr>symmetrize = False, damping = 0, strategy = ''pinv''\<rparr>" diagonal_linalg]
    t [of "\<lparr>symmetrize = False, damping = 0, strategy = ''solve''\<rparr>" diagonal_linalg]
    t [of "\<lparr>symmetrize = False, damping = 0, strategy = ''cholesky''\<rparr>" diagonal_linalg]
    C n 1 2 3 4
  show ?thesis by simp
qed

section \<open>Inflated covariances\<close>

lemma dot_zero_right: "\<forall>v \<in> set x. v = 0 \<Longrightarrow> dot a x = 0"
proof (induction a arbitrary: x)
  case Nil
  show ?case by (simp add: dot_def)
next
  case (Cons v a)
  then show ?case by (cases x) (simp_all add: dot_def)
qed

lemma dot_zero_left: "\<forall>v \<in> set r. v = 0 \<Longrightarrow> dot r x = 0"
  using dot_zero_right [of r x] by (simp add: dot_commute)

lemma dot_sub_right: "length a = length b \<Longrightarrow> dot r (map2 (-) a b) = dot r a - dot r b"
proof (induction r arbitrary: a b)
  case Nil
  show ?case by (simp add: dot_def)
next
  case (Cons v r)
  show ?case
  proof (cases a)
    case Nil
    with Cons.prems show ?thesis by (simp add: dot_def)
  next
    case (Cons u a')
    with Cons.prems obtain w b' where b: "b = w # b'" "length a' = length b'"
      by (cases b) auto
    from Cons.IH [OF b(2)] show ?thesis
      by (simp add: Cons b dot_def algebra_simps)
  qed
qed

lemma mat_vec_sub:
  "length x = length y \<Longrightarrow> mat_vec C (map2 (-) x y) = map2 (-) (mat_vec C x) (mat_vec C y)"
  by (simp add: mat_vec_def dot_sub_right map2_map_map)

lemma pos_defD:
  "pos_def C \<Longrightarrow> length x = length C \<Longrightarrow> \<exists>v \<in> set x. v \<noteq> 0 \<Longrightarrow> 0 < dot x (mat_vec C x)"
  by (simp add: pos_def_def)

lemma pos_def_solution_unique:
  assumes "pos_def C" "solution_of C r x" "solution_of C r y"
  shows "x = y"
proof (rule ccontr)
  assume ne: "x \<noteq> y"
  let ?z = "map2 (-) x y"
  have l: "length x = length C" "length y = length C"
    using assms(2,3) by (simp_all add: solution_of_def)
  from ne l obtain i where i: "i < length C" "x ! i \<noteq> y ! i"
    by (auto simp: list_eq_iff_nth_eq)
  then have "?z ! i \<noteq> 0" using l by simp
  moreover have "?z ! i \<in> set ?z" using i l by (intro nth_mem) simp
  ultimately have nz: "\<exists>v \<in> set ?z. v \<noteq> 0" by blast
  have "mat_vec C ?z = map2 (-) r r"
    using assms(2,3) l by (simp add: mat_vec_sub solution_of_def)
  then have "\<forall>v \<in> set (mat_vec C ?z). v = 0"
    by (auto simp: in_set_zip)
  then have "dot ?z (mat_vec C ?z) = 0" by (rule dot_zero_right)
  moreover have "0 < dot ?z (mat_vec C ?z)"
    using assms(1) _ nz by (rule pos_defD) (simp add: l)
  ultimately show False by simp
qed

lemma pos_def_scaled:
  assumes "pos_def C" "0 < k"
  shows "pos_def (mat_scal k C)"
  unfolding pos_def_def
proof (intro allI impI)
  fix x :: vec
  assume "length x = length (mat_scal k C) \<and> (\<exists>v \<in> set x. v \<noteq> 0)"
  then have "0 < dot x (mat_vec C x)"
    using assms(1) by (simp add: pos_def_def mat_scal_def)
  then show "0 < dot x (mat_vec (mat_scal k C) x)"
    using assms(2) by (simp add: mat_vec_scal dot_scal_right)
qed

lemma pos_def_value:
  assumes "pos_def C" "solution_of C r x"
  shows "0 \<le> dot r x" and "\<exists>v \<in> set r. v \<noteq> 0 \<Longrightarrow> 0 < dot r x"
proof -
  have l: "length x = length C" and e: "mat_vec C x = r"
    using assms(2) by (simp_all add: solution_of_def)
  have v: "dot r x = dot x (mat_vec C x)" by (simp add: e dot_commute)
  show p: "0 < dot r x" if "\<exists>v \<in> set r. v \<noteq> 0"
  proof -
    have "\<exists>v \<in> set x. v \<noteq> 0"
    proof (rule ccontr)
      assume "\<not> (\<exists>v \<in> set x. v \<noteq> 0)"
      then have "\<forall>v \<in> set x. v = 0" by blast
      then have "\<forall>v \<in> set (mat_vec C x). v = 0"
        by (auto simp: mat_vec_def dot_zero_right)
      with that e show False by auto
    qed
    with assms(1) l show ?thesis unfolding v by (rule pos_defD)
  qed
  show "0 \<le> dot r x"
  proof (cases "\<exists>v \<in> set r. v \<noteq> 0")
    case True
    with p show ?thesis by simp
  next
    case False
    then have "dot r x = 0" by (intro dot_zero_left) blast
    then show ?thesis by simp
  qed
qed

lemma inverse_gives_solution:
  assumes "square d C" "inverse_of C M" "length r = d"
  shows "solution_of C r (mat_vec M r)"
proof -
  note M = inverse_ofD [OF assms(2,1)]
  have "mat_vec C (mat_vec M r) = mat_vec (mat_mul C M) r"
    using assms(1,3) M(1) by (simp add: mat_vec_mul)
  also have "\<dots> = r" using assms(3) by (simp add: M(3) mat_vec_eye)
  finally show ?thesis
    using assms(1) M(1) by (simp add: solution_of_def length_mat_vec square_length)
qed

text \<open>
  With no regularisation, the strategies \<^verbatim>\<open>inv\<close> and \<^verbatim>\<open>solve\<close> return \<open>r\<^sup>T x\<close> for a
  solution \<open>x\<close> of \<open>C x = r\<close>.
\<close>

lemma discrepancy_is_solution_value:
  assumes "square d C" "length r = d"
    and "strategy cfg = ''inv'' \<or> strategy cfg = ''solve''"
    and "\<not> symmetrize cfg" "damping cfg = 0"
    and "strategy_ok la cfg C r"
  obtains x where "solution_of C r x"
    and "snd (compute_normalized_discrepancy la cfg r (Fin C)) = Inr (Fin (dot r x))"
proof -
  have st: "snd (compute_normalized_discrepancy la cfg r (Fin C))
      = apply_strategy la (strategy cfg) r (Fin C)"
    using discrepancy_steps [OF assms(1), of la cfg r] regularized_off [OF assms(4,5)] by simp
  from assms(3) show ?thesis
  proof
    assume i: "strategy cfg = ''inv''"
    with assms(6) have "inv_ok la C" by (simp add: strategy_ok_def)
    then obtain M where M: "np_linalg_inv la (Fin C) = Inr (Fin M)" "inverse_of C M"
      by (rule inv_okD)
    have s: "solution_of C r (mat_vec M r)"
      using assms(1) M(2) assms(2) by (rule inverse_gives_solution)
    have "dot (vec_mat r M) r = dot r (mat_vec M r)"
      using inverse_ofD(1) [OF M(2) assms(1)] assms(2) by (simp add: dot_vec_mat)
    then have "snd (compute_normalized_discrepancy la cfg r (Fin C))
        = Inr (Fin (dot r (mat_vec M r)))"
      using M(1) i by (simp add: st apply_strategy_def bilinear_form_def)
    with s show ?thesis by (rule that)
  next
    assume i: "strategy cfg = ''solve''"
    with assms(6) have "solve_ok la C r" by (simp add: strategy_ok_def)
    then obtain x where x: "np_linalg_solve la (Fin C) r = Inr (Fin x)" "solution_of C r x"
      by (rule solve_okD)
    from x(1) i have "snd (compute_normalized_discrepancy la cfg r (Fin C)) = Inr (Fin (dot r x))"
      by (simp add: st apply_strategy_def)
    with x(2) show ?thesis by (rule that)
  qed
qed

lemma inflated_point:
  assumes "square d C" "length r = d" "pos_def C" "0 < k"
    and "strategy cfg = ''inv'' \<or> strategy cfg = ''solve''"
    and "\<not> symmetrize cfg" "damping cfg = 0"
    and "strategy_ok la cfg C r" "strategy_ok la cfg (mat_scal k C) r"
  shows "\<exists>a. snd (compute_normalized_discrepancy la cfg r (Fin C)) = Inr (Fin a) \<and>
    snd (compute_normalized_discrepancy la cfg r (Fin (mat_scal k C))) = Inr (Fin (a / k)) \<and>
    0 \<le> a \<and> ((\<exists>v \<in> set r. v \<noteq> 0) \<longrightarrow> 0 < a)"
proof -
  from assms(1,2,5,6,7,8) obtain x where x: "solution_of C r x"
    "snd (compute_normalized_discrepancy la cfg r (Fin C)) = Inr (Fin (dot r x))"
    by (rule discrepancy_is_solution_value)
  have "square d (mat_scal k C)" using assms(1) by (rule square_mat_scal)
  from this assms(2,5,6,7,9) obtain y where y: "solution_of (mat_scal k C) r y"
    "snd (compute_normalized_discrepancy la cfg r (Fin (mat_scal k C))) = Inr (Fin (dot r y))"
    by (rule discrepancy_is_solution_value)
  have "solution_of (mat_scal k C) r (map (\<lambda>v. v / k) x)"
    using x(1) assms(4) by (intro solution_of_scaled) simp_all
  with pos_def_scaled [OF assms(3,4)] y(1) have "y = map (\<lambda>v. v / k) x"
    by (rule pos_def_solution_unique)
  then have "dot r y = dot r x / k" by (simp add: dot_divide_right)
  with x(2) y(2) pos_def_value [OF assms(3) x(1)] show ?thesis by auto
qed


lemma anees_of_values:
  assumes "length (mean sol) = N" and "length rf = N" and "length (cov sol) = N" and "0 < N"
    and "length ds = N"
    and "\<forall>i<N. snd (compute_normalized_discrepancy la cfg
                   (map2 (-) (mean sol ! i) (rf ! i)) (cov sol ! i)) = Inr (Fin (ds ! i))"
  shows "snd (anees la cfg sol rf) = Inr (Fin (sum_list ds / real N))"
proof -
  let ?p = "\<lambda>i. snd (compute_normalized_discrepancy la cfg
                      (map2 (-) (mean sol ! i) (rf ! i)) (cov sol ! i))"
  have "map ?p [0..<N] = map Inr (map Fin ds)"
    using assms(5,6) by (intro nth_equalityI) simp_all
  moreover have "np_mean (map Fin ds) = Fin (sum_list ds / real N)"
    using assms(4,5) np_mean_Fin [of ds] by auto
  moreover have "snd (anees la cfg sol rf)
      = map_sum id np_mean (all_or_first_error (map ?p [0..<N]))"
    by (simp add: anees_outcome discrepancies_pointwise zip_points [OF assms(1-3)] o_def)
  ultimately show ?thesis
    by (simp only: all_or_first_error_values map_sum.simps)
qed

lemma sum_list_divide: "sum_list (map (\<lambda>a. a / k) ds) = sum_list ds / (k :: real)"
  by (induction ds) (simp_all add: add_divide_distrib)

lemma sum_list_upt_pos:
  fixes f :: "nat \<Rightarrow> real"
  assumes "\<forall>i<N. 0 \<le> f i" "j < N" "0 < f j"
  shows "0 < sum_list (map f [0..<N])"
proof -
  have "sum_list (map f [0..<N]) = sum f {0..<N}"
    by (simp add: interv_sum_list_conv_sum_set_nat)
  also have "0 < sum f {0..<N}"
    by (rule sum_pos2 [of _ j]) (use assms in simp_all)
  finally show ?thesis .
qed

lemma differ_nonzero:
  assumes "length a = length b" "a \<noteq> b"
  shows "\<exists>v \<in> set (map2 (-) a b). v \<noteq> (0 :: real)"
proof -
  from assms obtain i where i: "i < length a" "a ! i \<noteq> b ! i"
    by (auto simp: list_eq_iff_nth_eq)
  then have "map2 (-) a b ! i \<noteq> 0" using assms(1) by simp
  moreover have "map2 (-) a b ! i \<in> set (map2 (-) a b)"
    using i assms(1) by (intro nth_mem) simp
  ultimately show ?thesis by blast
qed

text \<open>
  Claim C8, amended. On a batch whose covariance matrices are positive definite and
  with a residual that is not zero, with the strategy \<^verbatim>\<open>inv\<close> or \<^verbatim>\<open>solve\<close>, no
  symmetrisation and no damping, and a backend whose routine answers as promised at
  the matrices of the batch and at their multiples: multiplying every covariance
  matrix by \<open>k > 1\<close> divides the value of \<open>anees\<close> by \<open>k\<close>, and the new value is
  strictly below the old one.
\<close>

theorem inflated_covariances_lower_anees:
  assumes "length ms = N" and "length rf = N" and "length Cs = N"
    and "1 < k"
    and "strategy cfg = ''inv'' \<or> strategy cfg = ''solve''"
    and "\<not> symmetrize cfg" and "damping cfg = 0"
    and "\<forall>i<N. length (ms ! i) = d \<and> length (rf ! i) = d \<and>
               square d (Cs ! i) \<and> pos_def (Cs ! i)"
    and "\<forall>i<N. strategy_ok la cfg (Cs ! i) (map2 (-) (ms ! i) (rf ! i)) \<and>
               strategy_ok la cfg (mat_scal k (Cs ! i)) (map2 (-) (ms ! i) (rf ! i))"
    and "\<exists>i<N. ms ! i \<noteq> rf ! i"
  shows "\<exists>a. snd (anees la cfg \<lparr>mean = ms, cov = map Fin Cs\<rparr> rf) = Inr (Fin a) \<and>
     snd (anees la cfg \<lparr>mean = ms, cov = map (\<lambda>C. Fin (mat_scal k C)) Cs\<rparr> rf)
       = Inr (Fin (a / k)) \<and>
     a / k < a"
proof -
  let ?r = "\<lambda>i. map2 (-) (ms ! i) (rf ! i)"
  have k0: "0 < k" using assms(4) by simp
  have "\<exists>a. i < N \<longrightarrow>
      snd (compute_normalized_discrepancy la cfg (?r i) (Fin (Cs ! i))) = Inr (Fin a) \<and>
      snd (compute_normalized_discrepancy la cfg (?r i) (Fin (mat_scal k (Cs ! i))))
        = Inr (Fin (a / k)) \<and>
      0 \<le> a \<and> ((\<exists>v \<in> set (?r i). v \<noteq> 0) \<longrightarrow> 0 < a)" for i
  proof (cases "i < N")
    case True
    with assms(8) have "square d (Cs ! i)" "length (?r i) = d" "pos_def (Cs ! i)" by simp_all
    from inflated_point [OF this k0 assms(5,6,7)] assms(9) True show ?thesis by blast
  next
    case False
    then show ?thesis by simp
  qed
  then obtain f where f: "\<And>i. i < N \<Longrightarrow>
      snd (compute_normalized_discrepancy la cfg (?r i) (Fin (Cs ! i))) = Inr (Fin (f i)) \<and>
      snd (compute_normalized_discrepancy la cfg (?r i) (Fin (mat_scal k (Cs ! i))))
        = Inr (Fin (f i / k)) \<and>
      0 \<le> f i \<and> ((\<exists>v \<in> set (?r i). v \<noteq> 0) \<longrightarrow> 0 < f i)"
    by metis
  from assms(10) obtain j where j: "j < N" "ms ! j \<noteq> rf ! j" by blast
  then have N: "0 < N" by simp
  let ?ds = "map f [0..<N]"
  let ?a = "sum_list ?ds / real N"
  have 1: "snd (anees la cfg \<lparr>mean = ms, cov = map Fin Cs\<rparr> rf) = Inr (Fin ?a)"
    by (rule anees_of_values [OF _ assms(2) _ N]) (use assms(1,3) f in simp_all)
  have "snd (anees la cfg \<lparr>mean = ms, cov = map (\<lambda>C. Fin (mat_scal k C)) Cs\<rparr> rf)
      = Inr (Fin (sum_list (map (\<lambda>a. a / k) ?ds) / real N))"
    by (rule anees_of_values [OF _ assms(2) _ N]) (use assms(1,3) f in simp_all)
  then have 2: "snd (anees la cfg \<lparr>mean = ms, cov = map (\<lambda>C. Fin (mat_scal k C)) Cs\<rparr> rf)
      = Inr (Fin (?a / k))"
    by (simp only: sum_list_divide) simp
  have "\<exists>v \<in> set (?r j). v \<noteq> 0"
    using assms(8) j by (intro differ_nonzero) simp_all
  with f [OF j(1)] have "0 < f j" by blast
  moreover have "\<forall>i<N. 0 \<le> f i" using f by blast
  ultimately have "0 < sum_list ?ds" using j(1) by (intro sum_list_upt_pos [of N f j])
  with N have "0 < ?a" by simp
  with assms(4) have "?a / k < ?a / 1"
    by (intro divide_strict_left_mono) simp_all
  then have "?a / k < ?a" by simp
  with 1 2 show ?thesis by blast
qed

lemma pos_def_scalar: "0 < c \<Longrightarrow> pos_def [[c]]"
proof (unfold pos_def_def, intro allI impI)
  fix x :: vec
  assume c: "0 < c" and x: "length x = length [[c]] \<and> (\<exists>v \<in> set x. v \<noteq> 0)"
  then obtain a where "x = [a]" "a \<noteq> 0"
    by (cases x) auto
  moreover from \<open>a \<noteq> 0\<close> have "0 < a * a" using not_real_square_gt_zero [of a] by blast
  with c have "0 < c * (a * a)" by (rule mult_pos_pos)
  ultimately show "0 < dot x (mat_vec [[c]] x)"
    by (simp add: dot_def mat_vec_def mult.left_commute)
qed

theorem inflated_covariances_lower_anees_witness:
  "pos_def [[1]] \<and> pos_def [[4]] \<and>
   (\<exists>a. snd (anees diagonal_linalg \<lparr>symmetrize = False, damping = 0, strategy = ''solve''\<rparr>
               \<lparr>mean = [[1], [2]], cov = map Fin [[[1]], [[4]]]\<rparr> [[0], [2]]) = Inr (Fin a) \<and>
        snd (anees diagonal_linalg \<lparr>symmetrize = False, damping = 0, strategy = ''solve''\<rparr>
               \<lparr>mean = [[1], [2]], cov = map (\<lambda>C. Fin (mat_scal 2 C)) [[[1]], [[4]]]\<rparr>
               [[0], [2]]) = Inr (Fin (a / 2)) \<and>
        a / 2 < a)"
proof -
  let ?cfg = "\<lparr>symmetrize = False, damping = 0, strategy = ''solve''\<rparr>"
  let ?ms = "[[1], [2 :: real]]"
  let ?rf = "[[0], [2 :: real]]"
  let ?Cs = "[[[1]], [[4 :: real]]]"
  have p: "pos_def [[1]]" "pos_def [[4]]" by (simp_all add: pos_def_scalar)
  have 1: "length ?ms = 2" "length ?rf = 2" "length ?Cs = 2" "(1 :: real) < 2"
    "strategy ?cfg = ''inv'' \<or> strategy ?cfg = ''solve''" "\<not> symmetrize ?cfg"
    "damping ?cfg = 0"
    by simp_all
  have 2: "\<forall>i<2. length (?ms ! i) = 1 \<and> length (?rf ! i) = 1 \<and>
               square 1 (?Cs ! i) \<and> pos_def (?Cs ! i)"
    using p by (simp add: less_Suc_eq numeral_2_eq_2 square_def)
  have 3: "\<forall>i<2. strategy_ok diagonal_linalg ?cfg (?Cs ! i) (map2 (-) (?ms ! i) (?rf ! i)) \<and>
               strategy_ok diagonal_linalg ?cfg (mat_scal 2 (?Cs ! i))
                 (map2 (-) (?ms ! i) (?rf ! i))"
    by (simp add: less_Suc_eq numeral_2_eq_2 strategy_ok_def contract_defs diagonal_defs
        array_defs)
  have 4: "\<exists>i<2. ?ms ! i \<noteq> ?rf ! i"
    by (rule exI [of _ 0]) simp
  from inflated_covariances_lower_anees [OF 1 2 3 4] p show ?thesis by simp
qed

text \<open>
  Claim C8 as stated, for every batch with a residual that is not zero, fails at a
  matrix that is not positive definite: with the one residual \<open>1\<close> and the matrix
  \<open>[[-1]]\<close>, \<open>anees\<close> returns \<open>-1\<close>, and \<open>-1 / 2\<close> with the matrix doubled, which
  is not below \<open>-1\<close>.
\<close>

theorem inflated_covariances_counterexample:
  "snd (anees diagonal_linalg \<lparr>symmetrize = False, damping = 0, strategy = ''solve''\<rparr>
          \<lparr>mean = [[1]], cov = [Fin [[- 1]]]\<rparr> [[0]]) = Inr (Fin (- 1)) \<and>
   snd (anees diagonal_linalg \<lparr>symmetrize = False, damping = 0, strategy = ''solve''\<rparr>
          \<lparr>mean = [[1]], cov = [Fin (mat_scal 2 [[- 1]])]\<rparr> [[0]]) = Inr (Fin (- (1 / 2))) \<and>
   \<not> (- (1 / 2) < (- 1 :: real))"
  by (simp add: anees_def compute_normalized_discrepancy_def Let_def raised_def diagonal_defs
      array_defs np_mean_def np_sum_def)

section \<open>The sample covariance\<close>

lemma col_upt:
  assumes "length rs = N"
  shows "col rs j = map (\<lambda>n. rs ! n ! j) [0..<N]"
  using assms by (intro nth_equalityI) (simp_all add: col_def)

lemma dot_map_upt: "dot (map f [0..<N]) (map g [0..<N]) = (\<Sum>n\<leftarrow>[0..<N]. f n * g n)"
  by (simp add: dot_def zip_map_map zip_same_conv_map o_def)

lemma np_cov_sample_covariance:
  assumes "length rs = N" "2 \<le> N" "\<forall>i<N. length (rs ! i) = d"
  shows "np_cov (mat_T rs) = Fin (sample_covariance rs)"
proof (cases "d = 0")
  case True
  have "ncols rs = 0"
    using assms True by (cases rs) (auto simp: ncols_def)
  then show ?thesis by (simp add: mat_T_def np_cov_def sample_covariance_def)
next
  case False
  have nc: "ncols rs = d"
    using assms by (cases rs) (auto simp: ncols_def)
  define X where "X = mat_T rs"
  have X: "X = map (\<lambda>j. map (\<lambda>n. rs ! n ! j) [0..<N]) [0..<d]"
    by (simp add: X_def mat_T_def nc col_upt [OF assms(1)])
  have Xne: "X \<noteq> []" using False by (simp add: X)
  have ncX: "ncols X = N"
    using False by (simp add: X ncols_def upt_conv_Cons split: list.splits)
  let ?avg = "\<lambda>j. (\<Sum>n\<leftarrow>[0..<N]. rs ! n ! j) / real N"
  define Xc where "Xc = map (\<lambda>row. map (\<lambda>v. v - sum_list row / real N) row) X"
  have Xc: "Xc = map (\<lambda>j. map (\<lambda>n. rs ! n ! j - ?avg j) [0..<N]) [0..<d]"
    by (simp add: Xc_def X o_def)
  have N0: "0 < N" using assms(2) by simp
  have ncXc: "ncols Xc = N"
    using False by (simp add: Xc ncols_def upt_conv_Cons split: list.splits)
  have T: "mat_T Xc = map (\<lambda>n. map (\<lambda>j. rs ! n ! j - ?avg j) [0..<d]) [0..<N]"
    unfolding mat_T_def ncXc by (simp add: Xc col_def o_def)
  have ncT: "ncols (mat_T Xc) = d"
    using N0 by (simp add: T ncols_def upt_conv_Cons split: list.splits)
  have colT: "col (mat_T Xc) k = map (\<lambda>n. rs ! n ! k - ?avg k) [0..<N]" if "k < d" for k
    using that by (simp add: T col_def o_def)
  have c: "mat_mul Xc (mat_T Xc)
      = map (\<lambda>j. map (\<lambda>k. (\<Sum>n\<leftarrow>[0..<N]. (rs ! n ! j - ?avg j) * (rs ! n ! k - ?avg k)))
                    [0..<d]) [0..<d]"
    unfolding mat_mul_def vec_mat_def ncT
    by (subst Xc) (simp add: colT dot_map_upt o_def)
  have f: "real_of_int (int N - 1) = real N - 1" by simp
  have "np_cov X = Fin (mat_scal (1 / (real N - 1)) (mat_mul Xc (mat_T Xc)))"
    using Xne assms(2) unfolding np_cov_def Let_def ncX f Xc_def by simp
  also have "mat_scal (1 / (real N - 1)) (mat_mul Xc (mat_T Xc)) = sample_covariance rs"
    unfolding c by (simp add: sample_covariance_def mat_scal_def assms(1) nc o_def)
  finally show ?thesis by (simp add: X_def)
qed


section \<open>The non-credibility index\<close>

lemma nci_outcome:
  "snd (nci la cfg sol rf) =
     (case snd (compute_normalized_discrepancies la cfg (arr_sub (mean sol) rf) (cov sol)) of
        Inl e \<Rightarrow> Inl e
      | Inr A \<Rightarrow>
          (case snd (compute_normalized_discrepancies la cfg (arr_sub (mean sol) rf)
                       (replicate (length (arr_sub (mean sol) rf))
                          (np_cov (mat_T (arr_sub (mean sol) rf))))) of
             Inl e \<Rightarrow> Inl e
           | Inr B \<Rightarrow>
               Inr (lift1 ((*) 10)
                      (lift2 (-) (np_mean (map np_log10 A)) (np_mean (map np_log10 B))))))"
  by (simp add: nci_def Let_def split: prod.splits sum.splits)

lemma arr_sub_upt:
  assumes "length ms = N" "length rf = N"
  shows "arr_sub ms rf = map (\<lambda>i. map2 (-) (ms ! i) (rf ! i)) [0..<N]"
  using assms by (intro nth_equalityI) (simp_all add: arr_sub_def)

lemma zip_points_replicate:
  assumes "length ms = N" "length rf = N"
  shows "zip (arr_sub ms rf) (replicate N S) = map (\<lambda>i. (map2 (-) (ms ! i) (rf ! i), S)) [0..<N]"
  using assms by (intro nth_equalityI) (simp_all add: arr_sub_def)

lemma np_log10_pos: "\<forall>x \<in> set xs. 0 < x \<Longrightarrow> map np_log10 (map Fin xs) = map Fin (map (log 10) xs)"
  by (induction xs) simp_all

text \<open>
  Claim C2. On \<open>N \<ge> 2\<close> points with residuals of one dimension, \<open>nci\<close> returns
  \<open>10 * (mean (log10 A) - mean (log10 B))\<close>, where \<open>A\<close> holds the discrepancies
  of the residuals with the covariances of their points, and \<open>B\<close> the discrepancies
  of the same residuals, each with the sample covariance matrix of the \<open>N\<close>
  residuals, computed under the same configuration and by the same routines; an
  exception in \<open>A\<close>, or else in \<open>B\<close>, is the outcome. On positive discrepancies the
  value is the number the formula names.
\<close>

theorem nci_is_log_ratio:
  assumes "length (mean sol) = N" and "length rf = N" and "length (cov sol) = N" and "2 \<le> N"
    and "\<forall>i<N. length (mean sol ! i) = d \<and> length (rf ! i) = d"
    and "rs = map (\<lambda>i. map2 (-) (mean sol ! i) (rf ! i)) [0..<N]"
  shows "snd (nci la cfg sol rf) =
     (case all_or_first_error
             (map (\<lambda>i. snd (compute_normalized_discrepancy la cfg (rs ! i) (cov sol ! i))) [0..<N]) of
        Inl e \<Rightarrow> Inl e
      | Inr A \<Rightarrow>
          (case all_or_first_error
                  (map (\<lambda>i. snd (compute_normalized_discrepancy la cfg (rs ! i)
                                     (Fin (sample_covariance rs)))) [0..<N]) of
             Inl e \<Rightarrow> Inl e
           | Inr B \<Rightarrow>
               Inr (lift1 ((*) 10)
                      (lift2 (-) (np_mean (map np_log10 A)) (np_mean (map np_log10 B)))))) \<and>
    (length A = N \<and> length B = N \<and>
     (\<forall>i<N. 0 < A ! i \<and> 0 < B ! i \<and>
        snd (compute_normalized_discrepancy la cfg (rs ! i) (cov sol ! i)) = Inr (Fin (A ! i)) \<and>
        snd (compute_normalized_discrepancy la cfg (rs ! i) (Fin (sample_covariance rs)))
          = Inr (Fin (B ! i)))
     \<longrightarrow> snd (nci la cfg sol rf) = Inr (Fin (nci_value A B)))"
proof -
  let ?pa = "\<lambda>i. snd (compute_normalized_discrepancy la cfg (rs ! i) (cov sol ! i))"
  let ?pb = "\<lambda>i. snd (compute_normalized_discrepancy la cfg (rs ! i) (Fin (sample_covariance rs)))"
  let ?out = "\<lambda>A B. Inr (lift1 ((*) 10)
      (lift2 (-) (np_mean (map np_log10 A)) (np_mean (map np_log10 B)))) :: error + real np"
  have rs: "arr_sub (mean sol) rf = rs"
    using arr_sub_upt [OF assms(1,2)] assms(6) by simp
  have lrs: "length rs = N" by (simp add: assms(6))
  have nth: "rs ! i = map2 (-) (mean sol ! i) (rf ! i)" if "i < N" for i
    using that by (simp add: assms(6))
  have "\<forall>i<N. length (rs ! i) = d" using assms(5) by (simp add: nth)
  with lrs assms(4) have cov: "np_cov (mat_T rs) = Fin (sample_covariance rs)"
    by (rule np_cov_sample_covariance)
  have ma: "map (\<lambda>i. snd (compute_normalized_discrepancy la cfg
                 (map2 (-) (mean sol ! i) (rf ! i)) (cov sol ! i))) [0..<N] = map ?pa [0..<N]"
    by (intro map_cong refl) (simp add: nth)
  have mb: "map (\<lambda>i. snd (compute_normalized_discrepancy la cfg
                 (map2 (-) (mean sol ! i) (rf ! i)) (Fin (sample_covariance rs)))) [0..<N]
      = map ?pb [0..<N]"
    by (intro map_cong refl) (simp add: nth)
  have "snd (compute_normalized_discrepancies la cfg (arr_sub (mean sol) rf) (cov sol))
      = all_or_first_error (map ?pa [0..<N])"
    unfolding discrepancies_pointwise zip_points [OF assms(1-3)] ma [symmetric]
    by (simp add: o_def)
  then have a: "snd (compute_normalized_discrepancies la cfg rs (cov sol))
      = all_or_first_error (map ?pa [0..<N])"
    by (simp only: rs)
  have "snd (compute_normalized_discrepancies la cfg (arr_sub (mean sol) rf)
           (replicate N (Fin (sample_covariance rs))))
      = all_or_first_error (map ?pb [0..<N])"
    unfolding discrepancies_pointwise zip_points_replicate [OF assms(1,2)] mb [symmetric]
    by (simp add: o_def)
  then have b: "snd (compute_normalized_discrepancies la cfg rs
           (replicate N (Fin (sample_covariance rs))))
      = all_or_first_error (map ?pb [0..<N])"
    by (simp only: rs)
  have g: "snd (nci la cfg sol rf) =
     (case all_or_first_error (map ?pa [0..<N]) of Inl e \<Rightarrow> Inl e
      | Inr A \<Rightarrow> (case all_or_first_error (map ?pb [0..<N]) of Inl e \<Rightarrow> Inl e
          | Inr B \<Rightarrow> ?out A B))"
    unfolding nci_outcome rs lrs cov a b ..
  have "snd (nci la cfg sol rf) = Inr (Fin (nci_value A B))"
    if l: "length A = N" "length B = N"
      and v: "\<forall>i<N. 0 < A ! i \<and> 0 < B ! i \<and> ?pa i = Inr (Fin (A ! i)) \<and> ?pb i = Inr (Fin (B ! i))"
  proof -
    have 1: "map ?pa [0..<N] = map Inr (map Fin A)"
      using l v by (intro nth_equalityI) simp_all
    have 2: "map ?pb [0..<N] = map Inr (map Fin B)"
      using l v by (intro nth_equalityI) simp_all
    have pos: "\<forall>x \<in> set A. 0 < x" "\<forall>x \<in> set B. 0 < x"
      using l v by (auto simp: in_set_conv_nth)
    have ne: "map (log 10) A \<noteq> []" "map (log 10) B \<noteq> []"
      using l assms(4) by auto
    have "snd (nci la cfg sol rf) = ?out (map Fin A) (map Fin B)"
      unfolding g 1 2 all_or_first_error_values by simp
    also have "\<dots> = Inr (Fin (nci_value A B))"
      unfolding np_log10_pos [OF pos(1)] np_log10_pos [OF pos(2)]
        np_mean_Fin [OF ne(1)] np_mean_Fin [OF ne(2)]
      by (simp add: nci_value_def o_def)
    finally show ?thesis .
  qed
  with g show ?thesis by blast
qed


theorem nci_is_log_ratio_witness:
  "sample_covariance [[1], [3]] = [[2]] \<and>
   snd (nci diagonal_linalg \<lparr>symmetrize = False, damping = 0, strategy = ''solve''\<rparr>
          \<lparr>mean = [[1], [3]], cov = [Fin [[1]], Fin [[9]]]\<rparr> [[0], [0]])
     = Inr (Fin (nci_value [1, 1] [1 / 2, 9 / 2]))"
proof -
  let ?cfg = "\<lparr>symmetrize = False, damping = 0, strategy = ''solve''\<rparr>"
  let ?sol = "\<lparr>mean = [[1], [3]], cov = [Fin [[1]], Fin [[9]]]\<rparr>"
  let ?rf = "[[0], [0 :: real]]"
  let ?rs = "[[1], [3 :: real]]"
  have S: "sample_covariance ?rs = [[2]]"
    by (simp add: sample_covariance_def ncols_def upt_rec)
  have rs: "?rs = map (\<lambda>i. map2 (-) (mean ?sol ! i) (?rf ! i)) [0..<2]"
    by (simp add: upt_rec)
  have 1: "length (mean ?sol) = 2" "length ?rf = 2" "length (cov ?sol) = 2" "(2 :: nat) \<le> 2"
    "\<forall>i<2. length (mean ?sol ! i) = 1 \<and> length (?rf ! i) = 1"
    by (simp_all add: less_Suc_eq numeral_2_eq_2)
  have 2: "length [1, 1 :: real] = 2 \<and> length [1 / 2, 9 / 2 :: real] = 2 \<and>
     (\<forall>i<2. 0 < [1, 1 :: real] ! i \<and> 0 < [1 / 2, 9 / 2 :: real] ! i \<and>
        snd (compute_normalized_discrepancy diagonal_linalg ?cfg (?rs ! i) (cov ?sol ! i))
          = Inr (Fin ([1, 1] ! i)) \<and>
        snd (compute_normalized_discrepancy diagonal_linalg ?cfg (?rs ! i)
               (Fin (sample_covariance ?rs))) = Inr (Fin ([1 / 2, 9 / 2] ! i)))"
    unfolding S
    by (simp add: less_Suc_eq numeral_2_eq_2 compute_normalized_discrepancy_def Let_def raised_def
        diagonal_defs array_defs)
  from nci_is_log_ratio [OF 1 rs, THEN conjunct2, THEN mp, OF 2] S show ?thesis by simp
qed

section \<open>Discrepancies that are not positive\<close>

lemma np_sum_NonFin: "NonFin \<in> set xs \<Longrightarrow> np_sum xs = NonFin"
proof (induction xs)
  case Nil
  then show ?case by simp
next
  case (Cons v xs)
  then show ?case
    by (cases v; cases "np_sum xs") (auto simp: np_sum_def)
qed

lemma np_mean_NonFin: "NonFin \<in> set xs \<Longrightarrow> np_mean xs = NonFin"
  by (auto simp: np_mean_def np_sum_NonFin)

lemma all_Fin: "NonFin \<notin> set xs \<Longrightarrow> \<exists>ys. xs = map Fin ys"
proof (induction xs)
  case Nil
  show ?case by simp
next
  case (Cons v xs)
  then obtain ys where "xs = map Fin ys" by auto
  moreover from Cons.prems obtain y where "v = Fin y" by (cases v) auto
  ultimately have "v # xs = map Fin (y # ys)" by simp
  then show ?case by (rule exI)
qed

lemma np_mean_finite_iff: "(\<exists>y. np_mean xs = Fin y) \<longleftrightarrow> xs \<noteq> [] \<and> NonFin \<notin> set xs"
proof
  assume "\<exists>y. np_mean xs = Fin y"
  then show "xs \<noteq> [] \<and> NonFin \<notin> set xs"
    using np_mean_NonFin [of xs] by (auto simp: np_mean_def)
next
  assume a: "xs \<noteq> [] \<and> NonFin \<notin> set xs"
  then obtain ys where "xs = map Fin ys" "ys \<noteq> []" using all_Fin [of xs] by auto
  then show "\<exists>y. np_mean xs = Fin y" by (simp add: np_mean_Fin)
qed

lemma np_log10_NonFin_iff: "np_log10 v = NonFin \<longleftrightarrow> \<not> (\<exists>x>0. v = Fin x)"
  by (cases v) auto

lemma log_mean_finite_iff:
  "(\<exists>y. np_mean (map np_log10 xs) = Fin y) \<longleftrightarrow> xs \<noteq> [] \<and> (\<forall>v \<in> set xs. \<exists>x>0. v = Fin x)"
proof -
  have "NonFin \<notin> set (map np_log10 xs) \<longleftrightarrow> (\<forall>v \<in> set xs. \<exists>x>0. v = Fin x)"
  proof
    assume n: "NonFin \<notin> set (map np_log10 xs)"
    show "\<forall>v \<in> set xs. \<exists>x>0. v = Fin x"
    proof
      fix v assume "v \<in> set xs"
      with n have "np_log10 v \<noteq> NonFin" by force
      then show "\<exists>x>0. v = Fin x" by (simp add: np_log10_NonFin_iff)
    qed
  next
    assume "\<forall>v \<in> set xs. \<exists>x>0. v = Fin x"
    then show "NonFin \<notin> set (map np_log10 xs)" by auto
  qed
  then show ?thesis unfolding np_mean_finite_iff by simp
qed

lemma lift_finite_iff:
  "(\<exists>y. lift1 ((*) (10 :: real)) (lift2 (-) a b) = Fin y) \<longleftrightarrow> (\<exists>u. a = Fin u) \<and> (\<exists>w. b = Fin w)"
  by (cases a; cases b) auto

lemma not_Fin: "(\<forall>y. v \<noteq> Fin y) \<Longrightarrow> v = NonFin"
  by (cases v) auto

text \<open>
  Claim C9. When both discrepancy vectors of \<open>nci\<close> are computed, the one with the
  covariances of the points and the one with the sample covariance, \<open>nci\<close> raises
  nothing. It returns a finite number exactly when the vectors are not empty and
  every entry of both is a strictly positive number; when an entry is zero or
  negative, it returns a value that is not finite.
\<close>

theorem nci_needs_positive_discrepancies:
  assumes "snd (compute_normalized_discrepancies la cfg (arr_sub (mean sol) rf) (cov sol)) = Inr A"
    and "snd (compute_normalized_discrepancies la cfg (arr_sub (mean sol) rf)
                (replicate (length (arr_sub (mean sol) rf))
                   (np_cov (mat_T (arr_sub (mean sol) rf))))) = Inr B"
  shows "((\<exists>x. Fin x \<in> set (A @ B) \<and> x \<le> 0) \<longrightarrow> snd (nci la cfg sol rf) = Inr NonFin) \<and>
    ((\<exists>y. snd (nci la cfg sol rf) = Inr (Fin y)) \<longleftrightarrow>
       A \<noteq> [] \<and> B \<noteq> [] \<and> (\<forall>v \<in> set (A @ B). \<exists>x>0. v = Fin x)) \<and>
    (\<forall>e. snd (nci la cfg sol rf) \<noteq> Inl e)"
proof -
  let ?v = "lift1 ((*) (10 :: real))
    (lift2 (-) (np_mean (map np_log10 A)) (np_mean (map np_log10 B)))"
  have g: "snd (nci la cfg sol rf) = Inr ?v"
    unfolding nci_outcome assms by simp
  have f: "(\<exists>y. ?v = Fin y) \<longleftrightarrow>
      A \<noteq> [] \<and> B \<noteq> [] \<and> (\<forall>v \<in> set (A @ B). \<exists>x>0. v = Fin x)"
    unfolding lift_finite_iff log_mean_finite_iff by auto
  have "?v = NonFin" if "\<exists>x. Fin x \<in> set (A @ B) \<and> x \<le> 0"
  proof (rule not_Fin, intro allI notI)
    fix y assume "?v = Fin y"
    then have "\<forall>v \<in> set (A @ B). \<exists>x>0. v = Fin x" using f by blast
    with that show False by fastforce
  qed
  with g f show ?thesis by simp
qed

theorem nci_needs_positive_discrepancies_witness:
  "snd (compute_normalized_discrepancies diagonal_linalg
          \<lparr>symmetrize = False, damping = 0, strategy = ''solve''\<rparr>
          (arr_sub [[0], [2]] [[0], [0]]) [Fin [[1]], Fin [[1]]]) = Inr [Fin 0, Fin 4] \<and>
   np_cov (mat_T (arr_sub [[0], [2]] [[0], [0]])) = Fin [[2]] \<and>
   snd (compute_normalized_discrepancies diagonal_linalg
          \<lparr>symmetrize = False, damping = 0, strategy = ''solve''\<rparr>
          (arr_sub [[0], [2]] [[0], [0]]) (replicate 2 (Fin [[2]]))) = Inr [Fin 0, Fin 2] \<and>
   snd (nci diagonal_linalg \<lparr>symmetrize = False, damping = 0, strategy = ''solve''\<rparr>
          \<lparr>mean = [[0], [2]], cov = [Fin [[1]], Fin [[1]]]\<rparr> [[0], [0]]) = Inr NonFin"
proof -
  let ?cfg = "\<lparr>symmetrize = False, damping = 0, strategy = ''solve''\<rparr>"
  let ?sol = "\<lparr>mean = [[0], [2]], cov = [Fin [[1]], Fin [[1]]]\<rparr>"
  let ?rf = "[[0], [0 :: real]]"
  have r: "arr_sub (mean ?sol) ?rf = [[0], [2]]" by (simp add: arr_sub_def)
  have c: "np_cov (mat_T [[0], [2]]) = Fin [[2]]"
    by (simp add: np_cov_def Let_def array_defs upt_rec)
  have a: "snd (compute_normalized_discrepancies diagonal_linalg ?cfg
                 (arr_sub (mean ?sol) ?rf) (cov ?sol)) = Inr [Fin 0, Fin 4]"
    unfolding r
    by (simp add: compute_normalized_discrepancy_def Let_def raised_def diagonal_defs array_defs)
  have b: "snd (compute_normalized_discrepancies diagonal_linalg ?cfg (arr_sub (mean ?sol) ?rf)
                 (replicate (length (arr_sub (mean ?sol) ?rf))
                    (np_cov (mat_T (arr_sub (mean ?sol) ?rf))))) = Inr [Fin 0, Fin 2]"
    unfolding r c
    by (simp add: numeral_2_eq_2 compute_normalized_discrepancy_def Let_def raised_def
        diagonal_defs array_defs)
  have z: "\<exists>x. Fin x \<in> set ([Fin 0, Fin 4] @ [Fin 0, Fin 2]) \<and> x \<le> (0 :: real)"
    by (rule exI [of _ 0]) simp
  from nci_needs_positive_discrepancies [OF a b, THEN conjunct1, THEN mp, OF z] a b r c
  show ?thesis by (simp add: numeral_2_eq_2)
qed

end
